theory Spec2Isabelle
  imports Complex_Main
begin

section \<open>Strings and JSON values as the Python code sees them\<close>

text \<open>
  Python strings are modelled as \<open>string\<close>, a list of 8-bit characters read as the
  code points 0 to 255. On these, \<open>str.strip()\<close> removes from both ends the
  characters for which \<open>str.isspace\<close> holds (codes 9 to 13, 28 to 32, 133 and 160),
  and \<open>str.lower()\<close> maps \<open>A\<close>..\<open>Z\<close> to \<open>a\<close>..\<open>z\<close> and the capital letters
  192 to 222 (without the multiplication sign 215) to the letters 32 above them.
\<close>

definition is_space :: "char \<Rightarrow> bool" where
  "is_space c = (c \<in> {CHR 0x09, CHR 0x0A, CHR 0x0B, CHR 0x0C, CHR 0x0D,
                        CHR 0x1C, CHR 0x1D, CHR 0x1E, CHR 0x1F, CHR 0x20,
                        CHR 0x85, CHR 0xA0})"

definition strip :: "string \<Rightarrow> string" where
  "strip s = rev (dropWhile is_space (rev (dropWhile is_space s)))"

definition upper_letters :: string where
  "upper_letters =
     ''ABCDEFGHIJKLMNOPQRSTUVWXYZ'' @
     [CHR 0xC0, CHR 0xC1, CHR 0xC2, CHR 0xC3, CHR 0xC4, CHR 0xC5, CHR 0xC6, CHR 0xC7,
      CHR 0xC8, CHR 0xC9, CHR 0xCA, CHR 0xCB, CHR 0xCC, CHR 0xCD, CHR 0xCE, CHR 0xCF,
      CHR 0xD0, CHR 0xD1, CHR 0xD2, CHR 0xD3, CHR 0xD4, CHR 0xD5, CHR 0xD6,
      CHR 0xD8, CHR 0xD9, CHR 0xDA, CHR 0xDB, CHR 0xDC, CHR 0xDD, CHR 0xDE]"

definition lower_letters :: string where
  "lower_letters =
     ''abcdefghijklmnopqrstuvwxyz'' @
     [CHR 0xE0, CHR 0xE1, CHR 0xE2, CHR 0xE3, CHR 0xE4, CHR 0xE5, CHR 0xE6, CHR 0xE7,
      CHR 0xE8, CHR 0xE9, CHR 0xEA, CHR 0xEB, CHR 0xEC, CHR 0xED, CHR 0xEE, CHR 0xEF,
      CHR 0xF0, CHR 0xF1, CHR 0xF2, CHR 0xF3, CHR 0xF4, CHR 0xF5, CHR 0xF6,
      CHR 0xF8, CHR 0xF9, CHR 0xFA, CHR 0xFB, CHR 0xFC, CHR 0xFD, CHR 0xFE]"

definition lower_char :: "char \<Rightarrow> char" where
  "lower_char c =
     (case map_of (zip upper_letters lower_letters) c of
        None \<Rightarrow> c
      | Some d \<Rightarrow> d)"

definition lower :: "string \<Rightarrow> string" where
  "lower s = map lower_char s"

text \<open>
  A parsed JSON value (what \<open>request.get_json\<close> and \<open>response.json()\<close> return).
  \<open>JNull\<close> is Python's \<open>None\<close>; \<open>JObj\<close> holds a dict as its items (keys
  distinct, as in a parsed dict). Numbers are kept as integers: the code only ever
  tests a number for truthiness.
\<close>

datatype json =
    JNull
  | JBool bool
  | JNum int
  | JStr string
  | JArr "json list"
  | JObj "(string \<times> json) list"

text \<open>Python truthiness, as used by \<open>x or default\<close> and \<open>if x:\<close>.\<close>

fun truthy :: "json \<Rightarrow> bool" where
  "truthy JNull = False"
| "truthy (JBool b) = b"
| "truthy (JNum n) = (n \<noteq> 0)"
| "truthy (JStr s) = (s \<noteq> [])"
| "truthy (JArr xs) = (xs \<noteq> [])"
| "truthy (JObj kvs) = (kvs \<noteq> [])"

text \<open>\<open>a or b\<close>\<close>

definition py_or :: "json \<Rightarrow> json \<Rightarrow> json" where
  "py_or a b = (if truthy a then a else b)"

datatype error =
    AttributeError
  | TypeError
  | KeyError
  | IntegrityError
  | FileNotFoundError
  | JSONDecodeError
  | EOFError
  | DataOverflowError

text \<open>\<open>payload.get(key)\<close>: only a dict has \<open>get\<close>; a missing key gives \<open>None\<close>.\<close>

fun py_get :: "json \<Rightarrow> string \<Rightarrow> error + json" where
  "py_get (JObj kvs) k = Inr (case map_of kvs k of None \<Rightarrow> JNull | Some v \<Rightarrow> v)"
| "py_get _ k = Inl AttributeError"

text \<open>\<open>x.lower()\<close>: only a string has \<open>lower\<close>.\<close>

fun py_lower :: "json \<Rightarrow> error + string" where
  "py_lower (JStr s) = Inr (lower s)"
| "py_lower _ = Inl AttributeError"

text \<open>\<open>reward[key]\<close> with a string key.\<close>

fun py_subscript :: "json \<Rightarrow> string \<Rightarrow> error + json" where
  "py_subscript (JObj kvs) k = (case map_of kvs k of None \<Rightarrow> Inl KeyError | Some v \<Rightarrow> Inr v)"
| "py_subscript _ k = Inl TypeError"

section \<open>The server: \<open>app.py\<close>\<close>

subsection \<open>Data model\<close>

text \<open>
  \<open>class User\<close>: of its columns the name and the points are kept (the reward flow
  reads and writes \<open>points\<close> only); the primary key is the key of the table.
  \<open>class RewardToken\<close>: every column. Timestamps are natural numbers handed in
  by the caller (\<open>datetime.utcnow()\<close>).
\<close>

record user =
  username :: string
  user_points :: int

record reward_token =
  rt_id :: nat
  token :: string
  material :: string
  points :: int
  created_at :: nat
  redeemed :: bool
  redeemed_at :: "nat option"
  redeemed_by_id :: "nat option"

text \<open>
  A QR image is modelled by the text it encodes: \<open>qrcode.make\<close> is the
  constructor, decoding is the selector.
\<close>

datatype qr_image = QR (decode: string)

text \<open>
  The persistent state: the two tables and the files under \<open>QR_DIR\<close> (by file name).
  Rows of \<open>reward_token\<close> are kept in insertion order; no route deletes one.
\<close>

record server =
  users :: "nat \<rightharpoonup> user"
  rewards :: "reward_token list"
  qr_dir :: "string \<rightharpoonup> qr_image"

text \<open>\<open>RewardToken.query.filter_by(token=t).first()\<close>\<close>

definition find_reward :: "server \<Rightarrow> string \<Rightarrow> reward_token option" where
  "find_reward s t = find (\<lambda>r. token r = t) (rewards s)"

text \<open>
  \<open>current_user\<close> under \<open>@login_required\<close>: the session carries a user id,
  \<open>load_user\<close> fetches the row; no session or no row means the request is anonymous.
\<close>

definition load_user :: "server \<Rightarrow> nat option \<Rightarrow> (nat \<times> user) option" where
  "load_user s sess =
     (case sess of None \<Rightarrow> None
      | Some uid \<Rightarrow> (case users s uid of None \<Rightarrow> None | Some u \<Rightarrow> Some (uid, u)))"

text \<open>
  Flashed messages (the Russian texts of the source are named, not quoted) and the
  responses of the redemption routes.
\<close>

datatype flash =
    Enter_code             \<comment> \<open>scan, danger: no code entered\<close>
  | Code_not_found         \<comment> \<open>scan, danger: unknown code\<close>
  | Code_already_used      \<comment> \<open>scan and redeem, warning: code already used\<close>
  | Points_credited int    \<comment> \<open>scan and redeem, success: points credited\<close>

datatype response =
    Redirect_login
  | Abort_404
  | Redirect_dashboard flash
  | Render_scan "flash option"
  | Send_file qr_image

subsection \<open>Redemption: \<open>redeem_reward\<close> and \<open>scan\<close>\<close>

text \<open>
  Both routes first read (the user of the session, the row of the token, its
  \<open>redeemed\<close> flag) and then, on the last branch, write and commit. The two halves
  are separate definitions; the route is their composition.

  The commit issues \<open>UPDATE reward_token SET redeemed, redeemed_at, redeemed_by_id
  WHERE id = ...\<close> and \<open>UPDATE user SET points = ... WHERE id = ...\<close>, the new
  points being computed in Python from the loaded user object.
\<close>

datatype lookup =
    Respond response
  | Proceed nat user reward_token

definition redeem_lookup :: "server \<Rightarrow> nat option \<Rightarrow> string \<Rightarrow> lookup" where
  "redeem_lookup s sess t =
     (case load_user s sess of
        None \<Rightarrow> Respond Redirect_login
      | Some (uid, u) \<Rightarrow>
          (case find_reward s t of
             None \<Rightarrow> Respond Abort_404
           | Some reward \<Rightarrow>
               if redeemed reward then Respond (Redirect_dashboard Code_already_used)
               else Proceed uid u reward))"

definition redeem_commit :: "server \<Rightarrow> nat \<Rightarrow> user \<Rightarrow> reward_token \<Rightarrow> nat \<Rightarrow> server" where
  "redeem_commit s uid u reward now =
     s\<lparr>rewards :=
          map (\<lambda>r. if rt_id r = rt_id reward
                   then r\<lparr>redeemed := True, redeemed_at := Some now, redeemed_by_id := Some uid\<rparr>
                   else r) (rewards s),
        users := (users s)(uid \<mapsto> u\<lparr>user_points := user_points u + points reward\<rparr>)\<rparr>"

definition redeem_reward :: "server \<Rightarrow> nat option \<Rightarrow> string \<Rightarrow> nat \<Rightarrow> response \<times> server" where
  "redeem_reward s sess t now =
     (case redeem_lookup s sess t of
        Respond r \<Rightarrow> (r, s)
      | Proceed uid u reward \<Rightarrow>
          (Redirect_dashboard (Points_credited (points reward)), redeem_commit s uid u reward now))"

text \<open>
  \<open>scan\<close> with method POST; \<open>form_token\<close> is the form field \<open>token\<close>, if sent.
  The list of available rewards shown by the template is not modelled.
\<close>

definition scan :: "server \<Rightarrow> nat option \<Rightarrow> string option \<Rightarrow> nat \<Rightarrow> response \<times> server" where
  "scan s sess form_token now =
     (case load_user s sess of
        None \<Rightarrow> (Redirect_login, s)
      | Some (uid, u) \<Rightarrow>
          (let token_value = strip (case form_token of None \<Rightarrow> [] | Some v \<Rightarrow> v) in
           if token_value = [] then (Render_scan (Some Enter_code), s)
           else
             (case find_reward s token_value of
                None \<Rightarrow> (Render_scan (Some Code_not_found), s)
              | Some reward \<Rightarrow>
                  if redeemed reward then (Render_scan (Some Code_already_used), s)
                  else (Redirect_dashboard (Points_credited (points reward)),
                        redeem_commit s uid u reward now))))"

subsection \<open>QR images: \<open>qr_image_path\<close>, \<open>build_qr_code\<close>, \<open>serve_qr\<close>\<close>

text \<open>
  \<open>url_for(..., _external=True)\<close> puts the scheme and host of the current request
  (\<open>base\<close>) in front of the route; tokens are hexadecimal, so quoting leaves them as
  they are.
\<close>

definition url_for_reward_details :: "string \<Rightarrow> string \<Rightarrow> string" where
  "url_for_reward_details base t = base @ ''/reward/'' @ t"

definition url_for_serve_qr :: "string \<Rightarrow> string \<Rightarrow> string" where
  "url_for_serve_qr base t = base @ ''/reward/'' @ t @ ''/qrcode''"

definition qr_image_path :: "string \<Rightarrow> string" where
  "qr_image_path token_value = token_value @ ''.png''"

text \<open>
  \<open>qrcode.make\<close> belongs to a library: it returns the image, or raises
  \<open>DataOverflowError\<close> for a text that no QR code can hold. Which texts it accepts
  is a parameter, \<open>accepts\<close>, of every function that reaches it. When it raises,
  \<open>build_qr_code\<close> has written nothing.
\<close>

definition build_qr_code ::
  "(string \<Rightarrow> bool) \<Rightarrow> server \<Rightarrow> string \<Rightarrow> string \<Rightarrow> error + server" where
  "build_qr_code accepts s token_value redeem_url =
     (if accepts redeem_url
      then Inr (s\<lparr>qr_dir := (qr_dir s)(qr_image_path token_value \<mapsto> QR redeem_url)\<rparr>)
      else Inl DataOverflowError)"

definition serve_qr ::
  "(string \<Rightarrow> bool) \<Rightarrow> server \<Rightarrow> string \<Rightarrow> string \<Rightarrow> (error + response) \<times> server" where
  "serve_qr accepts s base t =
     (case find_reward s t of
        None \<Rightarrow> (Inr Abort_404, s)
      | Some reward \<Rightarrow>
          (let redeem_url = url_for_reward_details base t;
               path = qr_image_path t
           in case (if qr_dir s path = None then build_qr_code accepts s t redeem_url
                    else Inr s) of
                Inl e \<Rightarrow> (Inl e, s)
              | Inr s' \<Rightarrow>
                  (case qr_dir s' path of
                     None \<Rightarrow> (Inl FileNotFoundError, s')
                   | Some img \<Rightarrow> (Inr (Send_file img), s'))))"

subsection \<open>Issuance: \<open>api_reward\<close>\<close>

text \<open>
  The request carries the \<open>X-API-KEY\<close> header (if any), the parsed JSON body
  (\<open>JNull\<close> when \<open>get_json(silent=True)\<close> gives \<open>None\<close>) and the base of its URL.
  \<open>uuid4().hex\<close> and the clock are inputs. An exception ends the handler where it
  is raised and Flask answers with status 500: before the commit of line 424 the state
  is the old one, but \<open>build_qr_code\<close> is called after it, so when the QR encoder
  raises the new row stays in the table.
  The primary key of a new row is one more than the largest key in the table, and the
  \<open>unique\<close> constraint on \<open>token\<close> makes the commit of a duplicate fail.
  The text of the 400 message is written without its quotation marks.
\<close>

record api_request =
  api_key :: "string option"
  body :: json
  base_url :: string

datatype api_response = Json (status: nat) (payload: json)

definition next_id :: "reward_token list \<Rightarrow> nat" where
  "next_id rs = Suc (fold max (map rt_id rs) 0)"

definition api_reward ::
  "(string \<Rightarrow> bool) \<Rightarrow> string \<Rightarrow> server \<Rightarrow> api_request \<Rightarrow> string \<Rightarrow> nat
     \<Rightarrow> (error + api_response) \<times> server" where
  "api_reward accepts api_token s req uuid now =
     (if api_key req \<noteq> Some api_token
      then (Inr (Json 401 (JObj [(''error'', JStr ''unauthorized'')])), s)
      else
        (let payload_in = py_or (body req) (JObj []) in
         case py_get payload_in ''material'' of
           Inl e \<Rightarrow> (Inl e, s)
         | Inr m \<Rightarrow>
             (case py_lower (py_or m (JStr [])) of
                Inl e \<Rightarrow> (Inl e, s)
              | Inr material_value \<Rightarrow>
                  if material_value \<noteq> ''bottle'' \<and> material_value \<noteq> ''paper''
                  then (Inr (Json 400
                          (JObj [(''error'', JStr ''material must be bottle or paper'')])), s)
                  else
                    (let points_value = (if material_value = ''bottle'' then 100 else 50);
                         token_value = uuid
                     in if token_value \<in> set (map token (rewards s)) then (Inl IntegrityError, s)
                        else
                          (let reward = \<lparr>rt_id = next_id (rewards s), token = token_value,
                                          material = material_value, points = points_value,
                                          created_at = now, redeemed = False,
                                          redeemed_at = None, redeemed_by_id = None\<rparr>;
                               s1 = s\<lparr>rewards := rewards s @ [reward]\<rparr>;
                               redeem_url = url_for_reward_details (base_url req) token_value
                           in case build_qr_code accepts s1 token_value redeem_url of
                                Inl e \<Rightarrow> (Inl e, s1)
                              | Inr s2 \<Rightarrow>
                                  (let qr_url = url_for_serve_qr (base_url req) token_value
                                   in (Inr (Json 200
                                         (JObj [(''token'', JStr token_value),
                                                (''material'', JStr material_value),
                                                (''points'', JNum points_value),
                                                (''redeem_url'', JStr redeem_url),
                                                (''qr_url'', JStr qr_url)])), s2)))))))"

subsection \<open>The routes as operations on the state\<close>

datatype operation =
    Api_reward string api_request string nat
  | Redeem_reward "nat option" string nat
  | Scan "nat option" "string option" nat
  | Serve_qr string string

fun perform :: "(string \<Rightarrow> bool) \<Rightarrow> operation \<Rightarrow> server \<Rightarrow> server" where
  "perform accepts (Api_reward api_token req uuid now) s =
     snd (api_reward accepts api_token s req uuid now)"
| "perform accepts (Redeem_reward sess t now) s = snd (redeem_reward s sess t now)"
| "perform accepts (Scan sess form_token now) s = snd (scan s sess form_token now)"
| "perform accepts (Serve_qr base t) s = snd (serve_qr accepts s base t)"

text \<open>Operations one after another, each finished before the next begins.\<close>

definition perform_all :: "(string \<Rightarrow> bool) \<Rightarrow> operation list \<Rightarrow> server \<Rightarrow> server" where
  "perform_all accepts ops s = fold (perform accepts) ops s"

text \<open>The invariant of a \<open>RewardToken\<close> row.\<close>

definition token_invariant :: "reward_token \<Rightarrow> bool" where
  "token_invariant r =
     (if redeemed r then redeemed_at r \<noteq> None \<and> redeemed_by_id r \<noteq> None
      else redeemed_at r = None \<and> redeemed_by_id r = None)"

subsection \<open>Requests whose reads and writes interleave\<close>

text \<open>
  Nothing in \<open>redeem_reward\<close> holds a lock from the query of line 385 to the commit
  of line 394, and the update has no condition on \<open>redeemed\<close>. Requests served at
  the same time are therefore modelled as processes with two atomic steps, the read half
  and the write half, which a schedule interleaves. A request that has passed the
  \<open>redeemed\<close> test holds the objects it loaded.
\<close>

datatype request =
    Arrived "nat option" string
  | Holding nat user reward_token
  | Finished response

fun request_step :: "nat \<Rightarrow> request \<Rightarrow> server \<Rightarrow> request \<times> server" where
  "request_step now (Arrived sess t) s =
     (case redeem_lookup s sess t of
        Respond r \<Rightarrow> (Finished r, s)
      | Proceed uid u reward \<Rightarrow> (Holding uid u reward, s))"
| "request_step now (Holding uid u reward) s =
     (Finished (Redirect_dashboard (Points_credited (points reward))),
      redeem_commit s uid u reward now)"
| "request_step now (Finished r) s = (Finished r, s)"

text \<open>
  A schedule names, step by step, the request that moves and the time of the step;
  an index outside the list moves nothing.
\<close>

fun run_schedule :: "(nat \<times> nat) list \<Rightarrow> request list \<times> server \<Rightarrow> request list \<times> server" where
  "run_schedule [] c = c"
| "run_schedule ((i, now) # sched) (reqs, s) =
     (if i < length reqs
      then (let (rq, s') = request_step now (reqs ! i) s
            in run_schedule sched (reqs[i := rq], s'))
      else run_schedule sched (reqs, s))"

text \<open>
  What interleaved requests can do to the state, one atomic step at a time: an
  operation served without interruption, or the write half of a \<open>redeem_reward\<close> or
  \<open>scan\<close> request whose read half ran earlier, committing with the user and row
  objects it loaded then, which may be stale by now. Read halves change nothing, and
  \<open>api_reward\<close> and \<open>serve_qr\<close> write the tables in at most one commit, so for
  the tables each of them is one step.
\<close>

datatype step =
    Serve operation
  | Write_half nat user reward_token nat

fun take_step :: "(string \<Rightarrow> bool) \<Rightarrow> step \<Rightarrow> server \<Rightarrow> server" where
  "take_step accepts (Serve op) s = perform accepts op s"
| "take_step accepts (Write_half uid u reward now) s = redeem_commit s uid u reward now"

definition take_steps :: "(string \<Rightarrow> bool) \<Rightarrow> step list \<Rightarrow> server \<Rightarrow> server" where
  "take_steps accepts steps s = fold (take_step accepts) steps s"

text \<open>
  The same calls for one token, one at a time. A call goes through
  \<open>/reward/<token>/redeem\<close> or through the form of \<open>/scan\<close>, and ``already used''
  is answered by a redirect on the first route and by the page itself on the second.
\<close>

datatype route = Redeem_route | Scan_route

fun redeem_via :: "route \<Rightarrow> server \<Rightarrow> nat option \<Rightarrow> string \<Rightarrow> nat \<Rightarrow> response \<times> server" where
  "redeem_via Redeem_route s sess t now = redeem_reward s sess t now"
| "redeem_via Scan_route s sess t now = scan s sess (Some t) now"

fun already_used :: "route \<Rightarrow> response" where
  "already_used Redeem_route = Redirect_dashboard Code_already_used"
| "already_used Scan_route = Render_scan (Some Code_already_used)"

fun redeem_seq ::
  "server \<Rightarrow> string \<Rightarrow> (route \<times> nat option \<times> nat) list \<Rightarrow> response list \<times> server" where
  "redeem_seq s t [] = ([], s)"
| "redeem_seq s t ((via, sess, now) # calls) =
     (let (r, s') = redeem_via via s sess t now;
          (rs, s'') = redeem_seq s' t calls
      in (r # rs, s''))"

subsection \<open>Invariant of the registry, example states\<close>

text \<open>
  The invariant of the table: every row satisfies \<open>token_invariant\<close>, and the primary
  keys are distinct.
\<close>

definition registry_invariant :: "server \<Rightarrow> bool" where
  "registry_invariant s =
     ((\<forall>r\<in>set (rewards s). token_invariant r) \<and> distinct (map rt_id (rewards s)))"

text \<open>
  A small installation: two accounts and one unredeemed bottle token with its QR file;
  the same after the first account has redeemed the token.
\<close>

definition alice :: user where
  "alice = \<lparr>username = ''alice'', user_points = 0\<rparr>"

definition bob :: user where
  "bob = \<lparr>username = ''bob'', user_points = 20\<rparr>"

definition bottle_row :: reward_token where
  "bottle_row = \<lparr>rt_id = 1, token = ''ab12'', material = ''bottle'', points = 100,
                  created_at = 5, redeemed = False, redeemed_at = None, redeemed_by_id = None\<rparr>"

definition shop :: server where
  "shop = \<lparr>users = [1 \<mapsto> alice, 2 \<mapsto> bob], rewards = [bottle_row],
           qr_dir = [''ab12.png'' \<mapsto> QR ''http://bin/reward/ab12'']\<rparr>"

definition used_row :: reward_token where
  "used_row = bottle_row\<lparr>redeemed := True, redeemed_at := Some 10, redeemed_by_id := Some 1\<rparr>"

definition used_shop :: server where
  "used_shop = shop\<lparr>rewards := [used_row],
                     users := [1 \<mapsto> alice\<lparr>user_points := 100\<rparr>, 2 \<mapsto> bob]\<rparr>"

text \<open>
  Calls used as examples: a valid request for a bottle that also sends a \<open>points\<close>
  field, and a valid request whose \<open>material\<close> is the number 5.
\<close>

definition bottle_request :: api_request where
  "bottle_request = \<lparr>api_key = Some ''changeme'',
                       body = JObj [(''material'', JStr ''Bottle''), (''points'', JNum 9999)],
                       base_url = ''http://bin''\<rparr>"

definition odd_request :: api_request where
  "odd_request = \<lparr>api_key = Some ''changeme'', body = JObj [(''material'', JNum 5)],
                    base_url = ''http://bin''\<rparr>"

text \<open>
  Steps of interleaved requests: between two operations served whole, a write half
  commits with the second account and the bottle row as loaded before the first
  account redeemed it.
\<close>

definition mixed_steps :: "step list" where
  "mixed_steps =
     [Serve (Redeem_reward (Some 1) ''ab12'' 10),
      Write_half 2 bob bottle_row 11,
      Serve (Api_reward ''changeme'' \<lparr>api_key = Some ''changeme'',
                                         body = JObj [(''material'', JStr ''paper'')],
                                         base_url = ''http://bin''\<rparr> ''cd34'' 12),
      Serve (Scan (Some 2) (Some '' cd34 '') 13),
      Serve (Serve_qr ''http://bin'' ''cd34'')]"



text \<open>
  An encoder more generous than any real one: it accepts every text of at most 7089
  characters, the largest content of any QR code. A request to issue a paper token that
  arrives under a host name of 7100 letters.
\<close>

definition generous_qr :: "string \<Rightarrow> bool" where
  "generous_qr text_value = (length text_value \<le> 7089)"

definition long_base :: string where
  "long_base = ''http://'' @ replicate 7100 (CHR ''a'')"

definition long_request :: api_request where
  "long_request = \<lparr>api_key = Some ''changeme'', body = JObj [(''material'', JStr ''paper'')],
                     base_url = long_base\<rparr>"


text \<open>The example installation with a second token, for paper, not yet redeemed.\<close>

definition paper_row :: reward_token where
  "paper_row = \<lparr>rt_id = 2, token = ''cd34'', material = ''paper'', points = 50,
                 created_at = 7, redeemed = False, redeemed_at = None, redeemed_by_id = None\<rparr>"

definition two_token_shop :: server where
  "two_token_shop = shop\<lparr>rewards := [bottle_row, paper_row]\<rparr>"

section \<open>The intake agent: \<open>arduino_listener.py\<close>\<close>

subsection \<open>The environment and what the agent does to it\<close>

text \<open>
  The agent talks to a serial port, a camera, the operator's terminal and the server.
  The environment is a record of oracles: the answer to the \<open>k\<close>-th call of each
  kind. A frame is represented by the two measurements \<open>classify_material\<close> takes
  from it with OpenCV. \<open>input()\<close> gives a line or raises \<open>EOFError\<close> (no operator
  input: \<open>None\<close>). \<open>requests.post\<close> raises a \<open>RequestException\<close> (no connection,
  timeout) or gives a response: a status and the body parsed as JSON, if it is JSON.
\<close>

record frame =
  blue_ratio :: real
  mean_intensity :: real

datatype serial_read = SerialException | Line string

datatype http_outcome = RequestException | Response nat "json option"

record world =
  open_serial :: bool
  readline :: "nat \<Rightarrow> serial_read"
  camera :: "nat \<Rightarrow> frame option"
  stdin :: "nat \<Rightarrow> string option"
  http :: "nat \<Rightarrow> http_outcome"
  sensor_trigger_value :: string

text \<open>
  The agent's effects are recorded in order; the counters say how many calls of each
  kind it has made. Diagnostic prints to \<open>stderr\<close> are not recorded.
\<close>

datatype action =
    Open_port
  | Close_port
  | Read_line
  | Sleep real
  | Capture
  | Prompt
  | Post string
  | Print_reward json json json
  | Exit_process nat

record agent =
  reads :: nat
  shots :: nat
  prompts :: nat
  posts :: nat
  trace :: "action list"

definition emit :: "action list \<Rightarrow> agent \<Rightarrow> agent" where
  "emit acts a = a\<lparr>trace := trace a @ acts\<rparr>"

subsection \<open>\<open>capture_frame\<close>, \<open>classify_material\<close>, \<open>request_reward\<close>\<close>

definition capture_frame :: "world \<Rightarrow> agent \<Rightarrow> frame option \<times> agent" where
  "capture_frame w a = (camera w (shots a), emit [Capture] (a\<lparr>shots := shots a + 1\<rparr>))"

definition classify_material :: "world \<Rightarrow> frame \<Rightarrow> agent \<Rightarrow> (error + string) \<times> agent" where
  "classify_material w fr a =
     (if blue_ratio fr > 0.1 then (Inr ''bottle'', a)
      else if mean_intensity fr > 150 then (Inr ''paper'', a)
      else
        (let a' = emit [Prompt] (a\<lparr>prompts := prompts a + 1\<rparr>) in
         case stdin w (prompts a) of
           None \<Rightarrow> (Inl EOFError, a')
         | Some typed \<Rightarrow>
             (let response = lower (strip typed)
              in (Inr (if response \<noteq> ''paper'' \<and> response \<noteq> ''p'' then ''bottle'' else ''paper''),
                  a'))))"

text \<open>
  One \<open>requests.post\<close>; \<open>raise_for_status\<close> raises for a status from 400 to 599.
  Both exceptions are caught and \<open>None\<close> (\<open>JNull\<close>) is returned.
  \<open>response.json()\<close> is outside the \<open>try\<close>.
\<close>

definition request_reward :: "world \<Rightarrow> string \<Rightarrow> agent \<Rightarrow> (error + json) \<times> agent" where
  "request_reward w material_value a =
     (let a' = emit [Post material_value] (a\<lparr>posts := posts a + 1\<rparr>) in
      case http w (posts a) of
        RequestException \<Rightarrow> (Inr JNull, a')
      | Response code content \<Rightarrow>
          if 400 \<le> code \<and> code < 600 then (Inr JNull, a')
          else (case content of
                  None \<Rightarrow> (Inl JSONDecodeError, a')
                | Some j \<Rightarrow> (Inr j, a')))"

subsection \<open>\<open>main\<close>\<close>

text \<open>One pass through the body of \<open>while True\<close>; \<open>Inr ()\<close> means the loop goes on.\<close>

definition print_reward :: "json \<Rightarrow> agent \<Rightarrow> (error + unit) \<times> agent" where
  "print_reward reward a =
     (case py_subscript reward ''material'' of
        Inl e \<Rightarrow> (Inl e, a)
      | Inr m \<Rightarrow>
          (case py_subscript reward ''points'' of
             Inl e \<Rightarrow> (Inl e, a)
           | Inr p \<Rightarrow>
               (case py_subscript reward ''qr_url'' of
                  Inl e \<Rightarrow> (Inl e, a)
                | Inr q \<Rightarrow> (Inr (), emit [Print_reward m p q] a))))"

definition cycle :: "world \<Rightarrow> agent \<Rightarrow> (error + unit) \<times> agent" where
  "cycle w a =
     (let a1 = emit [Read_line] (a\<lparr>reads := reads a + 1\<rparr>) in
      case readline w (reads a) of
        SerialException \<Rightarrow> (Inr (), emit [Sleep 1] a1)
      | Line raw \<Rightarrow>
          (let line = strip raw in
           if line = [] then (Inr (), a1)
           else if line \<noteq> sensor_trigger_value w then (Inr (), a1)
           else
             (case capture_frame w a1 of
                (None, a2) \<Rightarrow> (Inr (), a2)
              | (Some fr, a2) \<Rightarrow>
                  (case classify_material w fr a2 of
                     (Inl e, a3) \<Rightarrow> (Inl e, a3)
                   | (Inr material_value, a3) \<Rightarrow>
                       (case request_reward w material_value a3 of
                          (Inl e, a4) \<Rightarrow> (Inl e, a4)
                        | (Inr reward, a4) \<Rightarrow>
                            if truthy reward
                            then (case print_reward reward a4 of
                                    (Inl e, a5) \<Rightarrow> (Inl e, a5)
                                  | (Inr u, a5) \<Rightarrow> (Inr (), emit [Sleep 0.5] a5))
                            else (Inr (), emit [Sleep 0.5] a4))))))"

text \<open>
  The loop has no exit of its own. \<open>fuel\<close> bounds the passes that are followed:
  \<open>Running\<close> says that the agent is still in the loop after that many passes. An
  exception ends the loop through the \<open>finally\<close> block, which closes the port.
\<close>

datatype status = Running | Exited nat | Crashed error

fun loop :: "world \<Rightarrow> nat \<Rightarrow> agent \<Rightarrow> status \<times> agent" where
  "loop w 0 a = (Running, a)"
| "loop w (Suc fuel) a =
     (case cycle w a of
        (Inl e, a') \<Rightarrow> (Crashed e, emit [Close_port] a')
      | (Inr u, a') \<Rightarrow> loop w fuel a')"

definition start :: agent where
  "start = \<lparr>reads = 0, shots = 0, prompts = 0, posts = 0, trace = []\<rparr>"

definition main :: "world \<Rightarrow> nat \<Rightarrow> status \<times> agent" where
  "main w fuel =
     (let a = emit [Open_port] start in
      if open_serial w then loop w fuel a
      else (Exited 1, emit [Exit_process 1] a))"

subsection \<open>Traces and example environments\<close>

text \<open>A trace asks the server only for a determinate material.\<close>

definition mints_determinate :: "action list \<Rightarrow> bool" where
  "mints_determinate tr = (\<forall>m. Post m \<in> set tr \<longrightarrow> m = ''bottle'' \<or> m = ''paper'')"

text \<open>
  A bench set-up: the sensor always fires, the camera sees a dim frame without blue
  (neither test of the heuristic passes), the operator presses return once and then
  leaves, the first request finds no server and later ones are answered.
\<close>

definition dim_frame :: frame where
  "dim_frame = \<lparr>blue_ratio = 0.02, mean_intensity = 90\<rparr>"

definition reward_json :: json where
  "reward_json =
     JObj [(''token'', JStr ''ab12''), (''material'', JStr ''bottle''), (''points'', JNum 100),
           (''redeem_url'', JStr ''http://bin/reward/ab12''),
           (''qr_url'', JStr ''http://bin/reward/ab12/qrcode'')]"

definition bench_world :: world where
  "bench_world =
     \<lparr>open_serial = True,
      readline = (\<lambda>k. Line ''1''),
      camera = (\<lambda>k. Some dim_frame),
      stdin = (\<lambda>k. if k = 0 then Some [] else None),
      http = (\<lambda>k. if k = 0 then RequestException else Response 200 (Some reward_json)),
      sensor_trigger_value = ''1''\<rparr>"

text \<open>The same with no port to open, with a port that fails every read, and with no operator.\<close>

definition dead_port_world :: world where
  "dead_port_world = bench_world\<lparr>open_serial := False\<rparr>"

definition unplugged_world :: world where
  "unplugged_world = bench_world\<lparr>readline := (\<lambda>k. SerialException)\<rparr>"

definition silent_world :: world where
  "silent_world = bench_world\<lparr>stdin := (\<lambda>k. None)\<rparr>"

section \<open>Properties of the server\<close>

subsection \<open>Redeeming one token several times\<close>

text \<open>
  Claim C1, as stated, promises one success among simultaneous calls. Two requests
  for the same unredeemed token, by two accounts, whose read halves both run before
  either write half: both pass the \<open>redeemed\<close> test, both commit, both answer with
  the success message, and both accounts receive the 100 points; the row ends up
  redeemed by the second.
\<close>

theorem concurrent_redeem_counterexample:
  "fst (run_schedule [(0, 10), (1, 11), (0, 12), (1, 13)]
         ([Arrived (Some 1) ''ab12'', Arrived (Some 2) ''ab12''], shop)) =
     [Finished (Redirect_dashboard (Points_credited 100)),
      Finished (Redirect_dashboard (Points_credited 100))]
   \<and> users (snd (run_schedule [(0, 10), (1, 11), (0, 12), (1, 13)]
         ([Arrived (Some 1) ''ab12'', Arrived (Some 2) ''ab12''], shop))) 1 = Some (alice\<lparr>user_points := 100\<rparr>)
   \<and> users (snd (run_schedule [(0, 10), (1, 11), (0, 12), (1, 13)]
         ([Arrived (Some 1) ''ab12'', Arrived (Some 2) ''ab12''], shop))) 2 = Some (bob\<lparr>user_points := 120\<rparr>)
   \<and> rewards (snd (run_schedule [(0, 10), (1, 11), (0, 12), (1, 13)]
         ([Arrived (Some 1) ''ab12'', Arrived (Some 2) ''ab12''], shop))) =
       [bottle_row\<lparr>redeemed := True, redeemed_at := Some 13, redeemed_by_id := Some 2\<rparr>]"
  by (simp add: shop_def alice_def bob_def bottle_row_def redeem_lookup_def load_user_def
      find_reward_def redeem_commit_def)

text \<open>
  A request whose two steps follow each other without another request in between is
  the route itself.
\<close>

lemma request_steps_uninterrupted:
  "run_schedule [(0, now), (0, now)] ([Arrived sess t], s) =
     ([Finished (fst (redeem_reward s sess t now))], snd (redeem_reward s sess t now))"
  by (simp add: redeem_reward_def split: lookup.splits)

lemma find_map_preserved:
  "(\<And>r. P (f r) = P r) \<Longrightarrow> find P (map f xs) = map_option f (find P xs)"
  by (induction xs) auto

lemma find_reward_commit:
  "find_reward (redeem_commit s uid u reward now) t =
     map_option (\<lambda>r. if rt_id r = rt_id reward
                      then r\<lparr>redeemed := True, redeemed_at := Some now, redeemed_by_id := Some uid\<rparr>
                      else r) (find_reward s t)"
  unfolding find_reward_def redeem_commit_def
  by (simp add: find_map_preserved)

lemma redeem_via_fresh:
  assumes "find_reward s t = Some reward" and "\<not> redeemed reward" and "users s uid = Some u"
    and "strip t = t" and "t \<noteq> []"
  shows "redeem_via via s (Some uid) t now =
           (Redirect_dashboard (Points_credited (points reward)), redeem_commit s uid u reward now)"
  using assms
  by (cases via) (simp_all add: redeem_reward_def redeem_lookup_def scan_def load_user_def)

lemma redeem_via_used:
  assumes "find_reward s t = Some reward" and "redeemed reward" and "users s uid = Some u"
    and "strip t = t" and "t \<noteq> []"
  shows "redeem_via via s (Some uid) t now = (already_used via, s)"
  using assms
  by (cases via) (simp_all add: redeem_reward_def redeem_lookup_def scan_def load_user_def)

lemma redeem_seq_used:
  assumes "find_reward s t = Some reward" and "redeemed reward"
    and "strip t = t" and "t \<noteq> []"
    and "\<forall>c\<in>set calls. \<exists>v. fst (snd c) = Some v \<and> v \<in> dom (users s)"
  shows "redeem_seq s t calls = (map (\<lambda>c. already_used (fst c)) calls, s)"
  using assms(5)
proof (induction calls)
  case Nil
  then show ?case by simp
next
  case (Cons c calls)
  obtain via sess now where c: "c = (via, sess, now)" by (cases c)
  with Cons.prems obtain v u where "sess = Some v" and "users s v = Some u" by auto
  then have "redeem_via via s sess t now = (already_used via, s)"
    using assms(1-4) redeem_via_used by simp
  moreover have "redeem_seq s t calls = (map (\<lambda>c. already_used (fst c)) calls, s)"
    using Cons by simp
  ultimately show ?case using c by simp
qed

text \<open>
  Claim C1, amended. When the redeem calls for an unredeemed token are served one
  after another, each finished before the next begins, by logged-in accounts and
  through either route, the first one succeeds and marks the row redeemed by its
  account at its time, every later one is answered ``already used'', and the only
  change to the accounts is that the first caller gains the token's points, once.
  (The form of \<open>/scan\<close> strips the code it is given and refuses an empty one, so the
  token is taken to be non-empty and free of surrounding blanks, as the hexadecimal
  tokens of \<open>api_reward\<close> are.)
\<close>

theorem redeem_seq_exactly_once:
  assumes "find_reward s t = Some reward" and "\<not> redeemed reward"
    and "users s uid = Some u"
    and "strip t = t" and "t \<noteq> []"
    and "\<forall>c\<in>set calls. \<exists>v. fst (snd c) = Some v \<and> v \<in> dom (users s)"
  shows "redeem_seq s t ((via, Some uid, now) # calls) =
           (Redirect_dashboard (Points_credited (points reward))
              # map (\<lambda>c. already_used (fst c)) calls,
            redeem_commit s uid u reward now)
         \<and> users (redeem_commit s uid u reward now) =
             (users s)(uid \<mapsto> u\<lparr>user_points := user_points u + points reward\<rparr>)
         \<and> find_reward (redeem_commit s uid u reward now) t =
             Some (reward\<lparr>redeemed := True, redeemed_at := Some now, redeemed_by_id := Some uid\<rparr>)"
proof -
  let ?s' = "redeem_commit s uid u reward now"
  have f: "find_reward ?s' t =
      Some (reward\<lparr>redeemed := True, redeemed_at := Some now, redeemed_by_id := Some uid\<rparr>)"
    using assms(1) by (simp add: find_reward_commit)
  have d: "\<forall>c\<in>set calls. \<exists>v. fst (snd c) = Some v \<and> v \<in> dom (users ?s')"
    using assms(6) by (auto simp: redeem_commit_def)
  have "redeem_seq ?s' t calls = (map (\<lambda>c. already_used (fst c)) calls, ?s')"
    using redeem_seq_used [OF f _ assms(4,5) d] by simp
  then show ?thesis
    using redeem_via_fresh [OF assms(1,2,3,4,5)] f by (simp add: redeem_commit_def)
qed

text \<open>
  Three calls in a row on the example: the first account is credited 100 points, the
  second account and the first again are told that the code is used.
\<close>

theorem redeem_seq_exactly_once_witness:
  "find_reward shop ''ab12'' = Some bottle_row \<and> \<not> redeemed bottle_row
   \<and> users shop 1 = Some alice
   \<and> strip ''ab12'' = ''ab12'' \<and> ''ab12'' \<noteq> []
   \<and> 2 \<in> dom (users shop) \<and> 1 \<in> dom (users shop)
   \<and> fst (redeem_seq shop ''ab12''
             [(Redeem_route, Some 1, 10), (Scan_route, Some 2, 11), (Redeem_route, Some 1, 12)]) =
       [Redirect_dashboard (Points_credited 100), Render_scan (Some Code_already_used),
        Redirect_dashboard Code_already_used]
   \<and> users (snd (redeem_seq shop ''ab12''
             [(Redeem_route, Some 1, 10), (Scan_route, Some 2, 11), (Redeem_route, Some 1, 12)])) =
       (users shop)(1 \<mapsto> alice\<lparr>user_points := 100\<rparr>)"
proof -
  have h: "find_reward shop ''ab12'' = Some bottle_row" "\<not> redeemed bottle_row"
    "users shop 1 = Some alice" "strip ''ab12'' = ''ab12''" "''ab12'' \<noteq> []"
    "\<forall>c\<in>set [(Scan_route, Some 2, 11::nat), (Redeem_route, Some 1, 12)].
        \<exists>v. fst (snd c) = Some v \<and> v \<in> dom (users shop)"
    by (simp_all add: shop_def find_reward_def bottle_row_def strip_def is_space_def)
  have d: "2 \<in> dom (users shop)" "1 \<in> dom (users shop)"
    by (simp_all add: shop_def)
  from redeem_seq_exactly_once [OF h, of Redeem_route 10] h(1-5) d show ?thesis
    by (simp add: alice_def bottle_row_def)
qed

subsection \<open>A token that is already redeemed\<close>

text \<open>
  Claim C2. For a token whose row is redeemed, a redeem call by a logged-in account,
  through \<open>redeem_reward\<close> or through \<open>scan\<close>, answers ``already used'' and
  leaves the whole state as it was: no account's points change, and the row keeps its
  \<open>redeemed_at\<close> and \<open>redeemed_by_id\<close>. An unknown token is answered differently:
  404 by \<open>redeem_reward\<close>, ``code not found'' by \<open>scan\<close>.
\<close>

theorem already_redeemed_is_inert:
  assumes "find_reward s t = Some reward" and "redeemed reward" and "users s uid = Some u"
  shows "redeem_reward s (Some uid) t now = (Redirect_dashboard Code_already_used, s)
         \<and> (strip v = t \<and> t \<noteq> [] \<longrightarrow>
              scan s (Some uid) (Some v) now = (Render_scan (Some Code_already_used), s))
         \<and> (find_reward s t' = None \<longrightarrow>
              redeem_reward s (Some uid) t' now = (Abort_404, s)
              \<and> (strip v' = t' \<and> t' \<noteq> [] \<longrightarrow>
                   scan s (Some uid) (Some v') now = (Render_scan (Some Code_not_found), s)))"
  using assms
  by (auto simp: redeem_reward_def redeem_lookup_def scan_def load_user_def Let_def)

theorem already_redeemed_is_inert_witness:
  "find_reward used_shop ''ab12'' = Some used_row \<and> redeemed used_row
   \<and> users used_shop 2 = Some bob
   \<and> redeem_reward used_shop (Some 2) ''ab12'' 11 = (Redirect_dashboard Code_already_used, used_shop)
   \<and> strip '' ab12 '' = ''ab12'' \<and> ''ab12'' \<noteq> []
   \<and> scan used_shop (Some 2) (Some '' ab12 '') 11 = (Render_scan (Some Code_already_used), used_shop)
   \<and> find_reward used_shop ''zz99'' = None
   \<and> redeem_reward used_shop (Some 2) ''zz99'' 11 = (Abort_404, used_shop)
   \<and> strip ''zz99'' = ''zz99'' \<and> ''zz99'' \<noteq> []
   \<and> scan used_shop (Some 2) (Some ''zz99'') 11 = (Render_scan (Some Code_not_found), used_shop)"
proof -
  have h: "find_reward used_shop ''ab12'' = Some used_row" "redeemed used_row"
    "users used_shop 2 = Some bob"
    by (simp_all add: used_shop_def used_row_def shop_def find_reward_def bottle_row_def)
  have k: "strip '' ab12 '' = ''ab12''" "find_reward used_shop ''zz99'' = None" "strip ''zz99'' = ''zz99''"
    by (simp_all add: used_shop_def used_row_def shop_def find_reward_def bottle_row_def strip_def is_space_def)
  from already_redeemed_is_inert [OF h, of 11 "'' ab12 ''" "''zz99''" "''zz99''"] h k
  show ?thesis by simp
qed

subsection \<open>The invariant of \<open>RewardToken\<close>\<close>

lemma fold_max_upper: "x \<in> set xs \<Longrightarrow> x \<le> fold max xs (b::nat)"
proof (induction xs arbitrary: b)
  case Nil
  then show ?case by simp
next
  case (Cons y ys)
  have mono: "b \<le> fold max ys b" for b :: nat and ys
    by (induction ys arbitrary: b) (auto intro: order_trans [OF max.cobounded2])
  show ?case
  proof (cases "x = y")
    case True
    then show ?thesis using mono [of "max y b" ys] by simp
  next
    case False
    with Cons show ?thesis by simp
  qed
qed

lemma next_id_fresh: "next_id rs \<notin> set (map rt_id rs)"
proof
  assume "next_id rs \<in> set (map rt_id rs)"
  then have "next_id rs \<le> fold max (map rt_id rs) 0" by (rule fold_max_upper)
  then show False by (simp add: next_id_def)
qed

text \<open>What one operation can do to the tables.\<close>

lemma api_reward_tables:
  "rewards (snd (api_reward accepts k s req uuid now)) = rewards s
   \<or> (\<exists>r. rewards (snd (api_reward accepts k s req uuid now)) = rewards s @ [r]
          \<and> \<not> redeemed r \<and> redeemed_at r = None \<and> redeemed_by_id r = None
          \<and> rt_id r = next_id (rewards s))"
  by (auto simp: api_reward_def build_qr_code_def Let_def split: sum.splits simp del: set_map)

lemma api_reward_users: "users (snd (api_reward accepts k s req uuid now)) = users s"
  by (auto simp: api_reward_def build_qr_code_def Let_def split: sum.splits simp del: set_map)

lemma serve_qr_tables:
  "rewards (snd (serve_qr accepts s base t)) = rewards s
   \<and> users (snd (serve_qr accepts s base t)) = users s"
  by (auto simp: serve_qr_def build_qr_code_def Let_def split: option.splits)

lemma find_reward_in: "find_reward s t = Some r \<Longrightarrow> r \<in> set (rewards s)"
  unfolding find_reward_def by (auto simp: find_Some_iff)

lemma redeem_reward_tables:
  "snd (redeem_reward s sess t now) = s
   \<or> (\<exists>uid u reward. users s uid = Some u \<and> reward \<in> set (rewards s) \<and> \<not> redeemed reward
         \<and> snd (redeem_reward s sess t now) = redeem_commit s uid u reward now)"
  by (auto simp: redeem_reward_def redeem_lookup_def load_user_def
      split: option.splits dest: find_reward_in)

lemma scan_tables:
  "snd (scan s sess v now) = s
   \<or> (\<exists>uid u reward. users s uid = Some u \<and> reward \<in> set (rewards s) \<and> \<not> redeemed reward
         \<and> snd (scan s sess v now) = redeem_commit s uid u reward now)"
  by (auto simp: scan_def load_user_def Let_def split: option.splits dest: find_reward_in)

lemma perform_effect:
  "(rewards (perform accepts op s) = rewards s \<and> users (perform accepts op s) = users s)
   \<or> (\<exists>r. rewards (perform accepts op s) = rewards s @ [r]
          \<and> users (perform accepts op s) = users s
          \<and> \<not> redeemed r \<and> redeemed_at r = None \<and> redeemed_by_id r = None
          \<and> rt_id r = next_id (rewards s))
   \<or> (\<exists>uid u reward now. users s uid = Some u \<and> reward \<in> set (rewards s) \<and> \<not> redeemed reward
          \<and> perform accepts op s = redeem_commit s uid u reward now)"
proof (cases op)
  case (Api_reward k req uuid now)
  then show ?thesis
    using api_reward_tables [of accepts k s req uuid now]
      api_reward_users [of accepts k s req uuid now]
    by auto
next
  case (Redeem_reward sess t now)
  then show ?thesis using redeem_reward_tables [of s sess t now] by auto
next
  case (Scan sess v now)
  then show ?thesis using scan_tables [of s sess v now] by auto
next
  case (Serve_qr base t)
  then show ?thesis using serve_qr_tables [of accepts s base t] by simp
qed

text \<open>The same for a step of interleaved requests: nothing is said of a write half's objects.\<close>

lemma step_effect:
  "rewards (take_step accepts st s) = rewards s
   \<or> (\<exists>r. rewards (take_step accepts st s) = rewards s @ [r]
          \<and> \<not> redeemed r \<and> redeemed_at r = None \<and> redeemed_by_id r = None
          \<and> rt_id r = next_id (rewards s))
   \<or> (\<exists>uid u reward now. take_step accepts st s = redeem_commit s uid u reward now)"
proof (cases st)
  case (Serve op)
  show ?thesis unfolding Serve take_step.simps
    using perform_effect [of accepts op s] by blast
next
  case (Write_half uid u reward now)
  show ?thesis unfolding Write_half take_step.simps by blast
qed

lemma commit_rows:
  "rewards (redeem_commit s uid u reward now) =
     map (\<lambda>r. if rt_id r = rt_id reward
               then r\<lparr>redeemed := True, redeemed_at := Some now, redeemed_by_id := Some uid\<rparr>
               else r) (rewards s)"
  by (simp add: redeem_commit_def)

lemma commit_users:
  "users (redeem_commit s uid u reward now) =
     (users s)(uid \<mapsto> u\<lparr>user_points := user_points u + points reward\<rparr>)"
  by (simp add: redeem_commit_def)

lemma commit_ids: "map rt_id (rewards (redeem_commit s uid u reward now)) = map rt_id (rewards s)"
  by (simp add: commit_rows comp_def if_distrib cong: if_cong)

lemma step_keeps_invariant:
  assumes "registry_invariant s"
  shows "registry_invariant (take_step accepts st s)"
  using step_effect [of accepts st s]
proof (elim disjE exE conjE)
  assume "rewards (take_step accepts st s) = rewards s"
  with assms show ?thesis by (simp add: registry_invariant_def)
next
  fix r
  assume "rewards (take_step accepts st s) = rewards s @ [r]" "\<not> redeemed r"
    "redeemed_at r = None" "redeemed_by_id r = None" "rt_id r = next_id (rewards s)"
  with assms next_id_fresh [of "rewards s"] show ?thesis
    by (auto simp: registry_invariant_def token_invariant_def)
next
  fix uid u reward now
  assume p: "take_step accepts st s = redeem_commit s uid u reward now"
  have "distinct (map rt_id (rewards (take_step accepts st s)))"
    using assms by (simp only: p commit_ids registry_invariant_def)
  moreover have "\<forall>r\<in>set (rewards (take_step accepts st s)). token_invariant r"
    using assms by (auto simp: p commit_rows registry_invariant_def token_invariant_def)
  ultimately show ?thesis by (simp add: registry_invariant_def)
qed

lemma step_monotone:
  "length (rewards s) \<le> length (rewards (take_step accepts st s))
   \<and> (\<forall>i<length (rewards s).
         rt_id (rewards (take_step accepts st s) ! i) = rt_id (rewards s ! i)
         \<and> (redeemed (rewards s ! i) \<longrightarrow> redeemed (rewards (take_step accepts st s) ! i)))"
  using step_effect [of accepts st s]
proof (elim disjE exE conjE)
  assume "rewards (take_step accepts st s) = rewards s"
  then show ?thesis by simp
next
  fix r
  assume "rewards (take_step accepts st s) = rewards s @ [r]"
  then show ?thesis by (simp add: nth_append)
next
  fix uid u reward now
  assume "take_step accepts st s = redeem_commit s uid u reward now"
  then show ?thesis by (simp add: commit_rows)
qed

lemma perform_flip_credits:
  assumes "registry_invariant s" and "i < length (rewards s)"
    and "\<not> redeemed (rewards s ! i)" and "redeemed (rewards (perform accepts op s) ! i)"
  shows "\<exists>uid u now. users s uid = Some u
           \<and> redeemed_at (rewards (perform accepts op s) ! i) = Some now
           \<and> redeemed_by_id (rewards (perform accepts op s) ! i) = Some uid
           \<and> users (perform accepts op s) uid =
               Some (u\<lparr>user_points := user_points u + points (rewards s ! i)\<rparr>)"
  using perform_effect [of accepts op s]
proof (elim disjE exE conjE)
  assume "rewards (perform accepts op s) = rewards s"
  with assms(3,4) show ?thesis by simp
next
  fix r
  assume "rewards (perform accepts op s) = rewards s @ [r]"
  with assms(2,3,4) show ?thesis by (simp add: nth_append)
next
  fix uid u reward now
  assume u: "users s uid = Some u" and m: "reward \<in> set (rewards s)"
    and p: "perform accepts op s = redeem_commit s uid u reward now"
  from assms(2,3,4) p have same_id: "rt_id (rewards s ! i) = rt_id reward"
    by (auto simp: commit_rows split: if_splits)
  from assms(1) have "inj_on rt_id (set (rewards s))"
    by (simp add: registry_invariant_def distinct_map)
  with same_id m assms(2) have "rewards s ! i = reward"
    by (auto dest: inj_onD)
  with u p assms(2) show ?thesis
    by (auto simp: commit_rows commit_users)
qed

lemma take_steps_keeps_invariant:
  "registry_invariant s \<Longrightarrow> registry_invariant (take_steps accepts steps s)"
  unfolding take_steps_def
  by (induction steps arbitrary: s) (auto intro: step_keeps_invariant)

lemma take_steps_monotone:
  "length (rewards s) \<le> length (rewards (take_steps accepts steps s))
   \<and> (\<forall>i<length (rewards s).
         rt_id (rewards (take_steps accepts steps s) ! i) = rt_id (rewards s ! i)
         \<and> (redeemed (rewards s ! i) \<longrightarrow> redeemed (rewards (take_steps accepts steps s) ! i)))"
proof (induction steps arbitrary: s)
  case Nil
  then show ?case by (simp add: take_steps_def)
next
  case (Cons st steps)
  have e: "take_steps accepts (st # steps) s = take_steps accepts steps (take_step accepts st s)"
    by (simp add: take_steps_def)
  note one = step_monotone [of s accepts st]
  note rest = Cons.IH [of "take_step accepts st s"]
  show ?case unfolding e
  proof (intro conjI allI impI)
    show "length (rewards s) \<le> length (rewards (take_steps accepts steps (take_step accepts st s)))"
      using one rest by linarith
  next
    fix i assume i: "i < length (rewards s)"
    then have i': "i < length (rewards (take_step accepts st s))" using one by linarith
    show "rt_id (rewards (take_steps accepts steps (take_step accepts st s)) ! i) = rt_id (rewards s ! i)"
      using one rest i i' by simp
  next
    fix i assume i: "i < length (rewards s)" and r: "redeemed (rewards s ! i)"
    then have i': "i < length (rewards (take_step accepts st s))" using one by linarith
    show "redeemed (rewards (take_steps accepts steps (take_step accepts st s)) ! i)"
      using one rest i i' r by simp
  qed
qed

text \<open>
  The steps cover both ways of serving requests: operations one after another, and
  the schedules of interleaved \<open>redeem_reward\<close> requests.
\<close>

lemma perform_all_steps: "perform_all accepts ops s = take_steps accepts (map Serve ops) s"
  unfolding perform_all_def take_steps_def
  by (induction ops arbitrary: s) simp_all

lemma request_step_steps:
  "\<exists>steps. snd (request_step now rq s) = take_steps accepts steps s"
proof (cases rq)
  case (Arrived sess t)
  have "snd (request_step now rq s) = take_steps accepts [] s"
    using Arrived by (simp add: take_steps_def split: lookup.splits)
  then show ?thesis ..
next
  case (Holding uid u reward)
  have "snd (request_step now rq s) = take_steps accepts [Write_half uid u reward now] s"
    using Holding by (simp add: take_steps_def)
  then show ?thesis ..
next
  case (Finished r)
  have "snd (request_step now rq s) = take_steps accepts [] s"
    using Finished by (simp add: take_steps_def)
  then show ?thesis ..
qed

lemma run_schedule_steps:
  "\<exists>steps. snd (run_schedule sched (reqs, s)) = take_steps accepts steps s"
proof (induction sched arbitrary: reqs s)
  case Nil
  have "snd (run_schedule [] (reqs, s)) = take_steps accepts [] s"
    by (simp add: take_steps_def)
  then show ?case ..
next
  case (Cons p sched)
  obtain i now where p: "p = (i, now)" by (cases p)
  show ?case
  proof (cases "i < length reqs")
    case False
    with p Cons.IH [of reqs s] show ?thesis by simp
  next
    case True
    obtain rq s' where r: "request_step now (reqs ! i) s = (rq, s')"
      by (cases "request_step now (reqs ! i) s")
    from request_step_steps [of now "reqs ! i" s accepts] r
    obtain st1 where s1: "s' = take_steps accepts st1 s" by auto
    from Cons.IH [of "reqs[i := rq]" s']
    obtain st2 where s2: "snd (run_schedule sched (reqs[i := rq], s')) = take_steps accepts st2 s'"
      by auto
    have "snd (run_schedule (p # sched) (reqs, s)) = take_steps accepts (st1 @ st2) s"
      using p True r s1 s2 by (simp add: take_steps_def)
    then show ?thesis ..
  qed
qed

text \<open>
  Claim C3, as stated, has the fields of a redeemed row set together with the points
  credit. One account sends redeem requests for two tokens, worth 100 and 50 points,
  and both read halves run before either write half: both rows end up redeemed by the
  account, with both fields set, but the second commit writes the balance it loaded
  plus 50, so the account holds 50 points and the credit of 100 is gone.
\<close>

theorem lost_credit_counterexample:
  "fst (run_schedule [(0, 10), (1, 11), (0, 12), (1, 13)]
         ([Arrived (Some 1) ''ab12'', Arrived (Some 1) ''cd34''], two_token_shop)) =
     [Finished (Redirect_dashboard (Points_credited 100)),
      Finished (Redirect_dashboard (Points_credited 50))]
   \<and> rewards (snd (run_schedule [(0, 10), (1, 11), (0, 12), (1, 13)]
         ([Arrived (Some 1) ''ab12'', Arrived (Some 1) ''cd34''], two_token_shop))) =
       [bottle_row\<lparr>redeemed := True, redeemed_at := Some 12, redeemed_by_id := Some 1\<rparr>,
        paper_row\<lparr>redeemed := True, redeemed_at := Some 13, redeemed_by_id := Some 1\<rparr>]
   \<and> users two_token_shop 1 = Some alice
   \<and> users (snd (run_schedule [(0, 10), (1, 11), (0, 12), (1, 13)]
         ([Arrived (Some 1) ''ab12'', Arrived (Some 1) ''cd34''], two_token_shop))) 1 =
       Some (alice\<lparr>user_points := 50\<rparr>)"
  by (simp add: two_token_shop_def shop_def alice_def bob_def bottle_row_def paper_row_def
      redeem_lookup_def load_user_def find_reward_def redeem_commit_def)

text \<open>
  Claim C3, amended. From a state in which every row satisfies the invariant
  (unredeemed: no \<open>redeemed_at\<close>, no \<open>redeemed_by_id\<close>; redeemed: both present), every
  sequence of steps, of operations served whole and of write halves of interleaved
  requests, leads to such a state; rows are never removed and a redeemed row stays
  redeemed. An operation served without interruption that turns a row redeemed sets
  both fields and adds the row's points to the redeeming account in that same
  operation.
\<close>

theorem reward_token_invariant:
  assumes "registry_invariant s"
  shows "registry_invariant (take_steps accepts steps s)
         \<and> length (rewards s) \<le> length (rewards (take_steps accepts steps s))
         \<and> (\<forall>i<length (rewards s).
               rt_id (rewards (take_steps accepts steps s) ! i) = rt_id (rewards s ! i)
               \<and> (redeemed (rewards s ! i) \<longrightarrow>
                    redeemed (rewards (take_steps accepts steps s) ! i)))
         \<and> (\<forall>i<length (rewards s).
               \<not> redeemed (rewards s ! i) \<and> redeemed (rewards (perform accepts op s) ! i) \<longrightarrow>
               (\<exists>uid u now. users s uid = Some u
                  \<and> redeemed_at (rewards (perform accepts op s) ! i) = Some now
                  \<and> redeemed_by_id (rewards (perform accepts op s) ! i) = Some uid
                  \<and> users (perform accepts op s) uid =
                      Some (u\<lparr>user_points := user_points u + points (rewards s ! i)\<rparr>)))"
  using take_steps_keeps_invariant [OF assms, of accepts steps]
    take_steps_monotone [of s accepts steps]
    perform_flip_credits [OF assms, of _ accepts op]
  by blast

text \<open>
  On the example: the mixed steps, with their stale write half, keep the invariant;
  the first redemption sets the fields and credits the account; and from the state with
  the used token, the token is still redeemed after the steps.
\<close>

theorem reward_token_invariant_witness:
  "registry_invariant shop
   \<and> registry_invariant (take_steps generous_qr mixed_steps shop)
   \<and> \<not> redeemed (rewards shop ! 0)
   \<and> redeemed (rewards (perform generous_qr (Redeem_reward (Some 1) ''ab12'' 10) shop) ! 0)
   \<and> (\<exists>uid u now. users shop uid = Some u
         \<and> redeemed_at (rewards (perform generous_qr (Redeem_reward (Some 1) ''ab12'' 10) shop) ! 0) = Some now
         \<and> redeemed_by_id (rewards (perform generous_qr (Redeem_reward (Some 1) ''ab12'' 10) shop) ! 0) = Some uid
         \<and> users (perform generous_qr (Redeem_reward (Some 1) ''ab12'' 10) shop) uid =
             Some (u\<lparr>user_points := user_points u + points (rewards shop ! 0)\<rparr>))
   \<and> registry_invariant used_shop
   \<and> redeemed (rewards used_shop ! 0)
   \<and> redeemed (rewards (take_steps generous_qr mixed_steps used_shop) ! 0)"
proof -
  have a: "registry_invariant shop"
    by (simp add: registry_invariant_def token_invariant_def shop_def bottle_row_def)
  have b: "registry_invariant used_shop"
    by (simp add: registry_invariant_def token_invariant_def used_shop_def used_row_def shop_def
        bottle_row_def)
  have c1: "(0::nat) < length (rewards shop)" "\<not> redeemed (rewards shop ! 0)"
    by (simp_all add: shop_def bottle_row_def)
  have c2: "redeemed (rewards (perform generous_qr (Redeem_reward (Some 1) ''ab12'' 10) shop) ! 0)"
    by (simp add: shop_def bottle_row_def redeem_reward_def redeem_lookup_def load_user_def
        find_reward_def redeem_commit_def)
  have d: "(0::nat) < length (rewards used_shop)" "redeemed (rewards used_shop ! 0)"
    by (simp_all add: used_shop_def used_row_def shop_def bottle_row_def)
  note t1 = reward_token_invariant [OF a, of generous_qr mixed_steps
      "Redeem_reward (Some 1) ''ab12'' 10"]
  note t2 = reward_token_invariant [OF b, of generous_qr mixed_steps
      "Redeem_reward (Some 1) ''ab12'' 10"]
  from t1 have i1: "registry_invariant (take_steps generous_qr mixed_steps shop)"
    by (rule conjunct1)
  from t1 c1 c2 have i2: "\<exists>uid u now. users shop uid = Some u
         \<and> redeemed_at (rewards (perform generous_qr (Redeem_reward (Some 1) ''ab12'' 10) shop) ! 0) = Some now
         \<and> redeemed_by_id (rewards (perform generous_qr (Redeem_reward (Some 1) ''ab12'' 10) shop) ! 0) = Some uid
         \<and> users (perform generous_qr (Redeem_reward (Some 1) ''ab12'' 10) shop) uid =
             Some (u\<lparr>user_points := user_points u + points (rewards shop ! 0)\<rparr>)"
    by simp
  from t2 d have i3: "redeemed (rewards (take_steps generous_qr mixed_steps used_shop) ! 0)"
    by simp
  from a b c1 c2 d i1 i2 i3 show ?thesis by simp
qed

subsection \<open>Issuing a token\<close>

lemma api_reward_issue:
  assumes "api_key req = Some k" and "body req = JObj kvs"
    and "map_of kvs ''material'' = Some (JStr m)"
    and "lower m = ''bottle'' \<or> lower m = ''paper''"
    and "uuid \<notin> set (map token (rewards s))"
  shows "api_reward accepts k s req uuid now =
          (if accepts (url_for_reward_details (base_url req) uuid)
           then (Inr (Json 200
                   (JObj [(''token'', JStr uuid),
                          (''material'', JStr (lower m)),
                          (''points'', JNum (if lower m = ''bottle'' then 100 else 50)),
                          (''redeem_url'', JStr (url_for_reward_details (base_url req) uuid)),
                          (''qr_url'', JStr (url_for_serve_qr (base_url req) uuid))])),
                 s\<lparr>rewards := rewards s @
                     [\<lparr>rt_id = next_id (rewards s), token = uuid, material = lower m,
                       points = (if lower m = ''bottle'' then 100 else 50),
                       created_at = now, redeemed = False, redeemed_at = None,
                       redeemed_by_id = None\<rparr>],
                   qr_dir := (qr_dir s)(qr_image_path uuid \<mapsto>
                               QR (url_for_reward_details (base_url req) uuid))\<rparr>)
           else (Inl DataOverflowError,
                 s\<lparr>rewards := rewards s @
                     [\<lparr>rt_id = next_id (rewards s), token = uuid, material = lower m,
                       points = (if lower m = ''bottle'' then 100 else 50),
                       created_at = now, redeemed = False, redeemed_at = None,
                       redeemed_by_id = None\<rparr>]\<rparr>))"
proof -
  from assms(3) have "kvs \<noteq> []" by auto
  then have p: "py_or (body req) (JObj []) = JObj kvs"
    using assms(2) by (simp add: py_or_def)
  from assms(4) have "m \<noteq> []" by (auto simp: lower_def)
  then have l: "py_lower (py_or (JStr m) (JStr [])) = Inr (lower m)"
    by (simp add: py_or_def)
  have g: "py_get (JObj kvs) ''material'' = Inr (JStr m)"
    using assms(3) by simp
  show ?thesis
    unfolding api_reward_def Let_def p g
    using assms(1,4,5) l by (simp add: build_qr_code_def del: set_map)
qed

lemma api_reward_200:
  assumes "api_reward accepts k s req uuid now = (Inr (Json 200 pl), s')"
  shows "\<exists>mat row. (mat = ''bottle'' \<or> mat = ''paper'')
          \<and> py_get pl ''material'' = Inr (JStr mat)
          \<and> py_get pl ''points'' = Inr (JNum (if mat = ''bottle'' then 100 else 50))
          \<and> rewards s' = rewards s @ [row]
          \<and> material row = mat
          \<and> points row = (if mat = ''bottle'' then 100 else 50)"
proof (cases "api_key req = Some k")
  case False
  with assms show ?thesis by (simp add: api_reward_def)
next
  case True
  show ?thesis
  proof (cases "py_get (py_or (body req) (JObj [])) ''material''")
    case (Inl e)
    with True assms show ?thesis by (simp add: api_reward_def)
  next
    case g: (Inr mv)
    show ?thesis
    proof (cases "py_lower (py_or mv (JStr []))")
      case (Inl e)
      with True g assms show ?thesis by (simp add: api_reward_def)
    next
      case l: (Inr mat)
      show ?thesis
      proof (cases "mat \<noteq> ''bottle'' \<and> mat \<noteq> ''paper''")
        case True
        with \<open>api_key req = Some k\<close> g l assms show ?thesis by (simp add: api_reward_def)
      next
        case False
        then have m: "mat = ''bottle'' \<or> mat = ''paper''" by blast
        let ?row = "\<lparr>rt_id = next_id (rewards s), token = uuid, material = mat,
                    points = (if mat = ''bottle'' then 100 else 50),
                    created_at = now, redeemed = False, redeemed_at = None,
                    redeemed_by_id = None\<rparr>"
        let ?pl = "JObj [(''token'', JStr uuid), (''material'', JStr mat),
                   (''points'', JNum (if mat = ''bottle'' then 100 else 50)),
                   (''redeem_url'', JStr (url_for_reward_details (base_url req) uuid)),
                   (''qr_url'', JStr (url_for_serve_qr (base_url req) uuid))]"
        have e: "api_reward accepts k s req uuid now =
            (if uuid \<in> set (map token (rewards s)) then (Inl IntegrityError, s)
             else if accepts (url_for_reward_details (base_url req) uuid)
             then (Inr (Json 200 ?pl),
                   s\<lparr>rewards := rewards s @ [?row],
                     qr_dir := (qr_dir s)(qr_image_path uuid \<mapsto>
                                 QR (url_for_reward_details (base_url req) uuid))\<rparr>)
             else (Inl DataOverflowError, s\<lparr>rewards := rewards s @ [?row]\<rparr>))"
        proof -
          have b: "mat \<noteq> ''bottle'' \<and> mat \<noteq> ''paper'' \<longleftrightarrow> False" using m by blast
          show ?thesis
            unfolding api_reward_def Let_def
            by (simp only: \<open>api_key req = Some k\<close> g l b build_qr_code_def
                not_True_eq_False if_False if_True sum.case simp_thms split: if_split)
              (simp del: set_map)
        qed
        show ?thesis
        proof (cases "uuid \<in> set (map token (rewards s))
                      \<or> \<not> accepts (url_for_reward_details (base_url req) uuid)")
          case True
          then have "fst (api_reward accepts k s req uuid now) = Inl IntegrityError
                     \<or> fst (api_reward accepts k s req uuid now) = Inl DataOverflowError"
            unfolding e by (simp del: set_map) blast
          with assms show ?thesis by auto
        next
          case False
          with e assms have pl: "pl = ?pl"
            and s': "s' = s\<lparr>rewards := rewards s @ [?row],
                     qr_dir := (qr_dir s)(qr_image_path uuid \<mapsto>
                                 QR (url_for_reward_details (base_url req) uuid))\<rparr>"
            by (simp_all del: set_map)
          have "rewards s' = rewards s @ [?row]"
            by (simp add: s')
          moreover have "py_get pl ''material'' = Inr (JStr mat)"
            "py_get pl ''points'' = Inr (JNum (if mat = ''bottle'' then 100 else 50))"
            by (simp_all add: pl)
          moreover have "material ?row = mat" "points ?row = (if mat = ''bottle'' then 100 else 50)"
            by simp_all
          ultimately show ?thesis using m by blast
        qed
      qed
    qed
  qed
qed

text \<open>
  Claim C4. A call of \<open>api_reward\<close> with the right key, a material that reads
  \<open>bottle\<close> or \<open>paper\<close> (in any letter case) and a fresh token stores a row with
  100 points for a bottle and 50 for paper, whatever the state of the server and
  whatever else the body contains; it answers 200 with the same points, unless the QR
  encoder refuses the redemption URL, in which case nothing is returned. And whenever
  \<open>api_reward\<close> answers 200, the points returned and stored are those of the
  material returned and stored: 100 for \<open>bottle\<close>, 50 for \<open>paper\<close>.
\<close>

theorem tariff_fixed_by_material:
  "(api_key req = Some k \<and> body req = JObj kvs \<and> map_of kvs ''material'' = Some (JStr m)
      \<and> (lower m = ''bottle'' \<or> lower m = ''paper'')
      \<and> uuid \<notin> set (map token (rewards s))
    \<longrightarrow> fst (api_reward accepts k s req uuid now) =
          (if accepts (url_for_reward_details (base_url req) uuid)
           then Inr (Json 200
                  (JObj [(''token'', JStr uuid),
                         (''material'', JStr (lower m)),
                         (''points'', JNum (if lower m = ''bottle'' then 100 else 50)),
                         (''redeem_url'', JStr (url_for_reward_details (base_url req) uuid)),
                         (''qr_url'', JStr (url_for_serve_qr (base_url req) uuid))]))
           else Inl DataOverflowError)
        \<and> rewards (snd (api_reward accepts k s req uuid now)) =
            rewards s @ [\<lparr>rt_id = next_id (rewards s), token = uuid, material = lower m,
                          points = (if lower m = ''bottle'' then 100 else 50),
                          created_at = now, redeemed = False, redeemed_at = None,
                          redeemed_by_id = None\<rparr>])
   \<and> (api_reward accepts k s req uuid now = (Inr (Json 200 pl), s')
    \<longrightarrow> (\<exists>mat row. (mat = ''bottle'' \<or> mat = ''paper'')
          \<and> py_get pl ''material'' = Inr (JStr mat)
          \<and> py_get pl ''points'' = Inr (JNum (if mat = ''bottle'' then 100 else 50))
          \<and> rewards s' = rewards s @ [row]
          \<and> material row = mat
          \<and> points row = (if mat = ''bottle'' then 100 else 50)))"
proof (rule conjI [OF impI impI])
  assume h: "api_key req = Some k \<and> body req = JObj kvs \<and> map_of kvs ''material'' = Some (JStr m)
      \<and> (lower m = ''bottle'' \<or> lower m = ''paper'')
      \<and> uuid \<notin> set (map token (rewards s))"
  then have "api_key req = Some k" "body req = JObj kvs" "map_of kvs ''material'' = Some (JStr m)"
    "lower m = ''bottle'' \<or> lower m = ''paper''" "uuid \<notin> set (map token (rewards s))"
    by blast+
  note e = api_reward_issue [OF this, of accepts now]
  show "fst (api_reward accepts k s req uuid now) =
          (if accepts (url_for_reward_details (base_url req) uuid)
           then Inr (Json 200
                  (JObj [(''token'', JStr uuid),
                         (''material'', JStr (lower m)),
                         (''points'', JNum (if lower m = ''bottle'' then 100 else 50)),
                         (''redeem_url'', JStr (url_for_reward_details (base_url req) uuid)),
                         (''qr_url'', JStr (url_for_serve_qr (base_url req) uuid))]))
           else Inl DataOverflowError)
        \<and> rewards (snd (api_reward accepts k s req uuid now)) =
            rewards s @ [\<lparr>rt_id = next_id (rewards s), token = uuid, material = lower m,
                          points = (if lower m = ''bottle'' then 100 else 50),
                          created_at = now, redeemed = False, redeemed_at = None,
                          redeemed_by_id = None\<rparr>]"
    unfolding e by simp
next
  assume "api_reward accepts k s req uuid now = (Inr (Json 200 pl), s')"
  then show "\<exists>mat row. (mat = ''bottle'' \<or> mat = ''paper'')
          \<and> py_get pl ''material'' = Inr (JStr mat)
          \<and> py_get pl ''points'' = Inr (JNum (if mat = ''bottle'' then 100 else 50))
          \<and> rewards s' = rewards s @ [row]
          \<and> material row = mat
          \<and> points row = (if mat = ''bottle'' then 100 else 50)"
    by (rule api_reward_200)
qed

text \<open>
  A request for \<open>Bottle\<close> that sends \<open>points = 9999\<close> is given 100 points. A
  request for paper under a host name too long for a QR code is answered with the
  encoder's exception, and its row is stored with 50 points.
\<close>

theorem tariff_fixed_by_material_witness:
  "api_key bottle_request = Some ''changeme''
   \<and> body bottle_request = JObj [(''material'', JStr ''Bottle''), (''points'', JNum 9999)]
   \<and> map_of [(''material'', JStr ''Bottle''), (''points'', JNum 9999)] ''material'' = Some (JStr ''Bottle'')
   \<and> lower ''Bottle'' = ''bottle''
   \<and> ''cd34'' \<notin> set (map token (rewards shop))
   \<and> generous_qr (url_for_reward_details (base_url bottle_request) ''cd34'')
   \<and> api_reward generous_qr ''changeme'' shop bottle_request ''cd34'' 7 =
       (Inr (Json 200 (JObj [(''token'', JStr ''cd34''), (''material'', JStr ''bottle''),
                 (''points'', JNum 100),
                 (''redeem_url'', JStr ''http://bin/reward/cd34''),
                 (''qr_url'', JStr ''http://bin/reward/cd34/qrcode'')])),
        snd (api_reward generous_qr ''changeme'' shop bottle_request ''cd34'' 7))
   \<and> rewards (snd (api_reward generous_qr ''changeme'' shop bottle_request ''cd34'' 7)) =
       [bottle_row,
        \<lparr>rt_id = 2, token = ''cd34'', material = ''bottle'', points = 100, created_at = 7,
          redeemed = False, redeemed_at = None, redeemed_by_id = None\<rparr>]
   \<and> (\<exists>mat row. (mat = ''bottle'' \<or> mat = ''paper'')
          \<and> py_get (JObj [(''token'', JStr ''cd34''), (''material'', JStr ''bottle''),
                 (''points'', JNum 100),
                 (''redeem_url'', JStr ''http://bin/reward/cd34''),
                 (''qr_url'', JStr ''http://bin/reward/cd34/qrcode'')]) ''material'' = Inr (JStr mat)
          \<and> py_get (JObj [(''token'', JStr ''cd34''), (''material'', JStr ''bottle''),
                 (''points'', JNum 100),
                 (''redeem_url'', JStr ''http://bin/reward/cd34''),
                 (''qr_url'', JStr ''http://bin/reward/cd34/qrcode'')]) ''points'' =
                Inr (JNum (if mat = ''bottle'' then 100 else 50))
          \<and> rewards (snd (api_reward generous_qr ''changeme'' shop bottle_request ''cd34'' 7)) =
                rewards shop @ [row]
          \<and> material row = mat
          \<and> points row = (if mat = ''bottle'' then 100 else 50))
   \<and> api_key long_request = Some ''changeme''
   \<and> body long_request = JObj [(''material'', JStr ''paper'')]
   \<and> lower ''paper'' = ''paper''
   \<and> \<not> generous_qr (url_for_reward_details (base_url long_request) ''cd34'')
   \<and> fst (api_reward generous_qr ''changeme'' shop long_request ''cd34'' 7) = Inl DataOverflowError
   \<and> rewards (snd (api_reward generous_qr ''changeme'' shop long_request ''cd34'' 7)) =
       [bottle_row,
        \<lparr>rt_id = 2, token = ''cd34'', material = ''paper'', points = 50, created_at = 7,
          redeemed = False, redeemed_at = None, redeemed_by_id = None\<rparr>]"
proof -
  have l: "lower ''Bottle'' = ''bottle''" "lower ''paper'' = ''paper''"
    by (simp_all add: lower_def lower_char_def upper_letters_def lower_letters_def)
  have f: "''cd34'' \<notin> set (map token (rewards shop))"
    by (simp add: shop_def bottle_row_def)
  have h: "api_key bottle_request = Some ''changeme''
    \<and> body bottle_request = JObj [(''material'', JStr ''Bottle''), (''points'', JNum 9999)]
    \<and> map_of [(''material'', JStr ''Bottle''), (''points'', JNum 9999)] ''material'' = Some (JStr ''Bottle'')
    \<and> (lower ''Bottle'' = ''bottle'' \<or> lower ''Bottle'' = ''paper'')
    \<and> ''cd34'' \<notin> set (map token (rewards shop))"
    using l f by (simp add: bottle_request_def)
  have k: "api_key long_request = Some ''changeme''
    \<and> body long_request = JObj [(''material'', JStr ''paper'')]
    \<and> map_of [(''material'', JStr ''paper'')] ''material'' = Some (JStr ''paper'')
    \<and> (lower ''paper'' = ''bottle'' \<or> lower ''paper'' = ''paper'')
    \<and> ''cd34'' \<notin> set (map token (rewards shop))"
    using l f by (simp add: long_request_def)
  have n: "next_id [bottle_row] = 2"
    by (simp add: next_id_def bottle_row_def)
  have u: "url_for_reward_details (base_url bottle_request) ''cd34'' = ''http://bin/reward/cd34''"
    "url_for_serve_qr (base_url bottle_request) ''cd34'' = ''http://bin/reward/cd34/qrcode''"
    by (simp_all add: url_for_reward_details_def url_for_serve_qr_def bottle_request_def)
  have g: "generous_qr ''http://bin/reward/cd34''"
    by (simp add: generous_qr_def)
  have g': "\<not> generous_qr (url_for_reward_details (base_url long_request) ''cd34'')"
    by (simp add: generous_qr_def url_for_reward_details_def long_request_def long_base_def)
  have r: "rewards shop = [bottle_row]" by (simp add: shop_def)
  note t = mp [OF conjunct1 [OF tariff_fixed_by_material] h, of generous_qr 7]
  from t have one: "fst (api_reward generous_qr ''changeme'' shop bottle_request ''cd34'' 7) =
       Inr (Json 200 (JObj [(''token'', JStr ''cd34''), (''material'', JStr ''bottle''),
                 (''points'', JNum 100),
                 (''redeem_url'', JStr ''http://bin/reward/cd34''),
                 (''qr_url'', JStr ''http://bin/reward/cd34/qrcode'')]))"
    by (simp add: l n u r g)
  from t have two: "rewards (snd (api_reward generous_qr ''changeme'' shop bottle_request ''cd34'' 7)) =
       [bottle_row,
        \<lparr>rt_id = 2, token = ''cd34'', material = ''bottle'', points = 100, created_at = 7,
          redeemed = False, redeemed_at = None, redeemed_by_id = None\<rparr>]"
    by (simp add: l n u r g)
  have pair: "api_reward generous_qr ''changeme'' shop bottle_request ''cd34'' 7 =
       (Inr (Json 200 (JObj [(''token'', JStr ''cd34''), (''material'', JStr ''bottle''),
                 (''points'', JNum 100),
                 (''redeem_url'', JStr ''http://bin/reward/cd34''),
                 (''qr_url'', JStr ''http://bin/reward/cd34/qrcode'')])),
        snd (api_reward generous_qr ''changeme'' shop bottle_request ''cd34'' 7))"
    by (rule prod_eqI) (simp_all only: one fst_conv snd_conv)
  have three: "(\<exists>mat row. (mat = ''bottle'' \<or> mat = ''paper'')
          \<and> py_get (JObj [(''token'', JStr ''cd34''), (''material'', JStr ''bottle''),
                 (''points'', JNum 100),
                 (''redeem_url'', JStr ''http://bin/reward/cd34''),
                 (''qr_url'', JStr ''http://bin/reward/cd34/qrcode'')]) ''material'' = Inr (JStr mat)
          \<and> py_get (JObj [(''token'', JStr ''cd34''), (''material'', JStr ''bottle''),
                 (''points'', JNum 100),
                 (''redeem_url'', JStr ''http://bin/reward/cd34''),
                 (''qr_url'', JStr ''http://bin/reward/cd34/qrcode'')]) ''points'' =
                Inr (JNum (if mat = ''bottle'' then 100 else 50))
          \<and> rewards (snd (api_reward generous_qr ''changeme'' shop bottle_request ''cd34'' 7)) =
                rewards shop @ [row]
          \<and> material row = mat
          \<and> points row = (if mat = ''bottle'' then 100 else 50))"
    by (rule mp [OF conjunct2 [OF tariff_fixed_by_material] pair])
  note t' = mp [OF conjunct1 [OF tariff_fixed_by_material] k, of generous_qr 7]
  from t' have four: "fst (api_reward generous_qr ''changeme'' shop long_request ''cd34'' 7) =
       Inl DataOverflowError"
    by (simp only: g' if_False simp_thms)
  from t' have five: "rewards (snd (api_reward generous_qr ''changeme'' shop long_request ''cd34'' 7)) =
       [bottle_row,
        \<lparr>rt_id = 2, token = ''cd34'', material = ''paper'', points = 50, created_at = 7,
          redeemed = False, redeemed_at = None, redeemed_by_id = None\<rparr>]"
    by (simp add: l n r)
  show ?thesis
    using h k l g g' u pair two three four five by (simp only: simp_thms)
qed

text \<open>
  Claim C5 says that every call with a material outside the tariff gets the answer 400.
  With the right key and the body \<open>{"material": 5}\<close> the handler calls \<open>lower\<close> on
  a number: it raises \<open>AttributeError\<close> (status 500, not 400). Nothing is stored.
\<close>

theorem api_reward_crashes_on_non_string_material:
  "api_reward accepts ''changeme'' shop odd_request ''cd34'' 7 = (Inl AttributeError, shop)"
  by (simp add: api_reward_def odd_request_def py_or_def)

text \<open>
  The rest of what C5 says holds: a wrong or missing key is answered 401 and a missing
  or textual material outside the tariff 400, both without a change of the state. The
  only answer other than 200 that leaves a row behind is the exception of the QR
  encoder, raised after the commit.
\<close>

lemma api_reward_rejections:
  "(api_key req \<noteq> Some k \<longrightarrow>
      api_reward accepts k s req uuid now =
        (Inr (Json 401 (JObj [(''error'', JStr ''unauthorized'')])), s))
   \<and> (api_key req = Some k \<and> py_get (py_or (body req) (JObj [])) ''material'' = Inr mv
        \<and> (mv = JNull \<or> (\<exists>m. mv = JStr m \<and> lower m \<noteq> ''bottle'' \<and> lower m \<noteq> ''paper''))
      \<longrightarrow> api_reward accepts k s req uuid now =
            (Inr (Json 400 (JObj [(''error'', JStr ''material must be bottle or paper'')])), s))
   \<and> ((\<forall>pl. fst (api_reward accepts k s req uuid now) \<noteq> Inr (Json 200 pl))
        \<and> fst (api_reward accepts k s req uuid now) \<noteq> Inl DataOverflowError
      \<longrightarrow> snd (api_reward accepts k s req uuid now) = s)"
proof (intro conjI impI)
  assume "api_key req \<noteq> Some k"
  then show "api_reward accepts k s req uuid now =
        (Inr (Json 401 (JObj [(''error'', JStr ''unauthorized'')])), s)"
    by (simp add: api_reward_def)
next
  assume h: "api_key req = Some k \<and> py_get (py_or (body req) (JObj [])) ''material'' = Inr mv
        \<and> (mv = JNull \<or> (\<exists>m. mv = JStr m \<and> lower m \<noteq> ''bottle'' \<and> lower m \<noteq> ''paper''))"
  then have "py_lower (py_or mv (JStr [])) = Inr [] 
     \<or> (\<exists>m. py_lower (py_or mv (JStr [])) = Inr (lower m) \<and> lower m \<noteq> ''bottle'' \<and> lower m \<noteq> ''paper'')"
    by (auto simp: py_or_def lower_def)
  with h show "api_reward accepts k s req uuid now =
            (Inr (Json 400 (JObj [(''error'', JStr ''material must be bottle or paper'')])), s)"
    by (auto simp: api_reward_def Let_def)
next
  assume n: "(\<forall>pl. fst (api_reward accepts k s req uuid now) \<noteq> Inr (Json 200 pl))
        \<and> fst (api_reward accepts k s req uuid now) \<noteq> Inl DataOverflowError"
  show "snd (api_reward accepts k s req uuid now) = s"
  proof (rule ccontr)
    assume c: "snd (api_reward accepts k s req uuid now) \<noteq> s"
    have "fst (api_reward accepts k s req uuid now) = Inl DataOverflowError
          \<or> (\<exists>pl. fst (api_reward accepts k s req uuid now) = Inr (Json 200 pl))
          \<or> snd (api_reward accepts k s req uuid now) = s"
      unfolding api_reward_def Let_def build_qr_code_def
      by (simp split: sum.splits if_splits del: set_map)
    with n c show False by blast
  qed
qed

subsection \<open>Serving the QR image\<close>








text \<open>
  The assumption on stored files is kept by every operation, and holds of an empty
  directory: files are written only by \<open>build_qr_code\<close>, with such a URL.
\<close>

lemma qr_image_path_inj: "qr_image_path t = qr_image_path t' \<longleftrightarrow> t = t'"
  by (simp add: qr_image_path_def)

lemma qr_files_update:
  assumes "\<forall>t img. m (qr_image_path t) = Some img \<longrightarrow>
             (\<exists>b. decode img = url_for_reward_details b t)"
  shows "\<forall>t img. (m(qr_image_path t0 \<mapsto> QR (url_for_reward_details b0 t0))) (qr_image_path t) = Some img
           \<longrightarrow> (\<exists>b. decode img = url_for_reward_details b t)"
proof (intro allI impI)
  fix t img
  assume a: "(m(qr_image_path t0 \<mapsto> QR (url_for_reward_details b0 t0))) (qr_image_path t) = Some img"
  show "\<exists>b. decode img = url_for_reward_details b t"
  proof (cases "t = t0")
    case True
    with a have "decode img = url_for_reward_details b0 t" by auto
    then show ?thesis ..
  next
    case False
    with a assms show ?thesis by (simp add: qr_image_path_inj)
  qed
qed

lemma perform_keeps_qr_files:
  assumes "\<forall>t img. qr_dir s (qr_image_path t) = Some img \<longrightarrow>
             (\<exists>b. decode img = url_for_reward_details b t)"
  shows "\<forall>t img. qr_dir (perform accepts op s) (qr_image_path t) = Some img \<longrightarrow>
             (\<exists>b. decode img = url_for_reward_details b t)"
proof (cases op)
  case (Api_reward k req uuid now)
  have "qr_dir (snd (api_reward accepts k s req uuid now)) = qr_dir s
        \<or> qr_dir (snd (api_reward accepts k s req uuid now)) =
            (qr_dir s)(qr_image_path uuid \<mapsto> QR (url_for_reward_details (base_url req) uuid))"
    unfolding api_reward_def Let_def build_qr_code_def
    by (simp split: sum.splits if_splits del: set_map)
  then show ?thesis
    using assms qr_files_update [OF assms, of uuid "base_url req"] Api_reward by auto
next
  case (Redeem_reward sess t now)
  have "qr_dir (snd (redeem_reward s sess t now)) = qr_dir s"
    by (auto simp: redeem_reward_def redeem_commit_def split: lookup.splits)
  with assms Redeem_reward show ?thesis by simp
next
  case (Scan sess v now)
  have "qr_dir (snd (scan s sess v now)) = qr_dir s"
    by (auto simp: scan_def redeem_commit_def Let_def split: option.splits)
  with assms Scan show ?thesis by simp
next
  case (Serve_qr base t)
  have "qr_dir (snd (serve_qr accepts s base t)) = qr_dir s
        \<or> qr_dir (snd (serve_qr accepts s base t)) =
            (qr_dir s)(qr_image_path t \<mapsto> QR (url_for_reward_details base t))"
    by (auto simp: serve_qr_def build_qr_code_def Let_def split: option.splits)
  then show ?thesis
    using assms qr_files_update [OF assms, of t base] Serve_qr by auto
qed

section \<open>Properties of the intake agent\<close>

subsection \<open>The operator fallback\<close>

text \<open>What \<open>strip\<close> and \<open>lower\<close> do to an answer with blanks around it.\<close>

lemma strip_blank:
  assumes "\<forall>c\<in>set s. is_space c"
  shows "strip s = []"
proof -
  from assms have e: "dropWhile is_space s = []"
    using dropWhile_eq_Nil_conv [of is_space s] by blast
  show ?thesis unfolding strip_def e by simp
qed

lemma strip_core:
  assumes "\<forall>c\<in>set pre. is_space c" and "\<forall>c\<in>set post. is_space c"
    and "core \<noteq> []" and "\<not> is_space (hd core)" and "\<not> is_space (last core)"
  shows "strip (pre @ core @ post) = core"
proof -
  from assms(3) obtain x xs where c: "core = x # xs" by (cases core) auto
  with assms(4) have x: "\<not> is_space x" by simp
  have "dropWhile is_space (pre @ core @ post) = dropWhile is_space (core @ post)"
    using assms(1) dropWhile_append2 [of pre is_space "core @ post"] by blast
  also have "\<dots> = core @ post" using c x by simp
  finally have front: "dropWhile is_space (pre @ core @ post) = core @ post" .
  from assms(3) obtain y ys where r: "rev core = y # ys" by (cases "rev core") auto
  have "hd (rev core) = last core" by (simp add: hd_rev)
  with r assms(5) have y: "\<not> is_space y" by simp
  have blanks: "\<forall>c\<in>set (rev post). is_space c" using assms(2) by simp
  have "dropWhile is_space (rev post @ rev core) = dropWhile is_space (rev core)"
    using blanks dropWhile_append2 [of "rev post" is_space "rev core"] by blast
  also have "\<dots> = rev core" using r y by simp
  finally have "dropWhile is_space (rev (core @ post)) = rev core" by simp
  then have "rev (dropWhile is_space (rev (core @ post))) = core" by simp
  with front show ?thesis by (simp add: strip_def)
qed

lemma blank_not_upper: "is_space c \<Longrightarrow> c \<notin> set upper_letters"
  unfolding is_space_def upper_letters_def
  by (elim insertE emptyE) simp_all

lemma lower_char_blank:
  assumes "is_space c"
  shows "lower_char c = c"
proof -
  have "c \<notin> fst ` set (zip upper_letters lower_letters)"
    using blank_not_upper [OF assms] by (auto dest: set_zip_leftD)
  then have "map_of (zip upper_letters lower_letters) c = None"
    by (simp add: map_of_eq_None_iff)
  then show ?thesis by (simp add: lower_char_def)
qed

lemma not_blank_p: "\<not> is_space (CHR ''p'')" and not_blank_r: "\<not> is_space (CHR ''r'')"
  by (simp_all add: is_space_def)

lemma answer_has_no_blank_ends:
  assumes "lower core = ''paper'' \<or> lower core = ''p''"
  shows "core \<noteq> [] \<and> \<not> is_space (hd core) \<and> \<not> is_space (last core)"
proof -
  from assms have ne: "core \<noteq> []" by (auto simp: lower_def)
  have "hd (lower core) = CHR ''p''" using assms by auto
  with ne have h: "lower_char (hd core) = CHR ''p''"
    by (simp add: lower_def hd_map)
  have "last (lower core) = CHR ''r'' \<or> last (lower core) = CHR ''p''"
    using assms by auto
  with ne have l: "lower_char (last core) = CHR ''r'' \<or> lower_char (last core) = CHR ''p''"
    by (simp add: lower_def last_map)
  have "\<not> is_space (hd core)"
    using h lower_char_blank [of "hd core"] not_blank_p by auto
  moreover have "\<not> is_space (last core)"
    using l lower_char_blank [of "last core"] not_blank_p not_blank_r by auto
  ultimately show ?thesis using ne by simp
qed

text \<open>
  Claim C10. When neither test of the heuristic passes and the operator types a line,
  \<open>classify_material\<close> returns \<open>paper\<close> if the line, stripped and lowercased, is
  \<open>paper\<close> or \<open>p\<close>, and \<open>bottle\<close> for every other line. So a line that is
  empty or all blanks gives \<open>bottle\<close>, and a line made of blanks, a word that reads
  \<open>paper\<close> or \<open>p\<close> in any letter case, and blanks gives \<open>paper\<close>. The result is
  never an error, and exactly one prompt is issued: the operator is not asked again.
\<close>

theorem operator_fallback:
  assumes "\<not> blue_ratio fr > 0.1" and "\<not> mean_intensity fr > 150"
    and "stdin w (prompts a) = Some typed"
  shows "classify_material w fr a =
           (Inr (if lower (strip typed) = ''paper'' \<or> lower (strip typed) = ''p''
                 then ''paper'' else ''bottle''),
            emit [Prompt] (a\<lparr>prompts := prompts a + 1\<rparr>))
         \<and> ((\<forall>c\<in>set typed. is_space c) \<longrightarrow> fst (classify_material w fr a) = Inr ''bottle'')
         \<and> ((\<forall>c\<in>set pre. is_space c) \<and> (\<forall>c\<in>set post. is_space c)
              \<and> typed = pre @ core @ post
              \<and> (lower core = ''paper'' \<or> lower core = ''p'')
             \<longrightarrow> fst (classify_material w fr a) = Inr ''paper'')"
proof -
  have main: "classify_material w fr a =
           (Inr (if lower (strip typed) = ''paper'' \<or> lower (strip typed) = ''p''
                 then ''paper'' else ''bottle''),
            emit [Prompt] (a\<lparr>prompts := prompts a + 1\<rparr>))"
    using assms by (simp add: classify_material_def Let_def)
  have blank: "fst (classify_material w fr a) = Inr ''bottle''" if "\<forall>c\<in>set typed. is_space c"
  proof -
    have "strip typed = []" using that by (rule strip_blank)
    then show ?thesis unfolding main by (simp add: lower_def)
  qed
  have word: "fst (classify_material w fr a) = Inr ''paper''"
    if "(\<forall>c\<in>set pre. is_space c) \<and> (\<forall>c\<in>set post. is_space c)
              \<and> typed = pre @ core @ post
              \<and> (lower core = ''paper'' \<or> lower core = ''p'')"
  proof -
    from that have ans: "lower core = ''paper'' \<or> lower core = ''p''" by blast
    note e = answer_has_no_blank_ends [OF ans]
    have "strip (pre @ core @ post) = core"
      using that e by (intro strip_core) blast+
    with that have "strip typed = core" by simp
    then show ?thesis unfolding main using ans by auto
  qed
  from main blank word show ?thesis by blast
qed

text \<open>
  On the bench: an empty answer gives \<open>bottle\<close> after one prompt; so do a line of
  blanks and the word \<open>plastic\<close>; a capital \<open>P\<close> between two no-break spaces, and
  \<open>PaPer\<close> between a tab and a line feed, give \<open>paper\<close>.
\<close>

theorem operator_fallback_witness:
  "\<not> blue_ratio dim_frame > 0.1 \<and> \<not> mean_intensity dim_frame > 150
   \<and> stdin bench_world (prompts start) = Some []
   \<and> classify_material bench_world dim_frame start =
       (Inr ''bottle'', \<lparr>reads = 0, shots = 0, prompts = 1, posts = 0, trace = [Prompt]\<rparr>)
   \<and> fst (classify_material (bench_world\<lparr>stdin := (\<lambda>k. Some [CHR 0x20, CHR 0x09, CHR 0xA0])\<rparr>)
            dim_frame start) = Inr ''bottle''
   \<and> lower (strip ''plastic'') = ''plastic''
   \<and> fst (classify_material (bench_world\<lparr>stdin := (\<lambda>k. Some ''plastic'')\<rparr>)
            dim_frame start) = Inr ''bottle''
   \<and> lower (strip [CHR 0xA0, CHR ''P'', CHR 0xA0]) = ''p''
   \<and> fst (classify_material (bench_world\<lparr>stdin := (\<lambda>k. Some [CHR 0xA0, CHR ''P'', CHR 0xA0])\<rparr>)
            dim_frame start) = Inr ''paper''
   \<and> lower (strip ([CHR 0x09] @ ''PaPer'' @ [CHR 0x0A])) = ''paper''
   \<and> fst (classify_material (bench_world\<lparr>stdin := (\<lambda>k. Some ([CHR 0x09] @ ''PaPer'' @ [CHR 0x0A]))\<rparr>)
            dim_frame start) = Inr ''paper''"
proof -
  have fr: "\<not> blue_ratio dim_frame > 0.1" "\<not> mean_intensity dim_frame > 150"
    by (simp_all add: dim_frame_def)
  have i0: "stdin bench_world (prompts start) = Some []"
    by (simp add: bench_world_def start_def)
  have i: "stdin (bench_world\<lparr>stdin := (\<lambda>k. Some x)\<rparr>) (prompts start) = Some x" for x
    by simp
  have sp: "\<forall>c\<in>set [CHR 0x20, CHR 0x09, CHR 0xA0]. is_space c"
    "\<forall>c\<in>set [CHR 0xA0]. is_space c" "\<forall>c\<in>set [CHR 0x09]. is_space c"
    "\<forall>c\<in>set [CHR 0x0A]. is_space c"
    by (simp_all add: is_space_def)
  have lw: "lower ''P'' = ''p''" "lower ''PaPer'' = ''paper''"
    by (simp_all add: lower_def lower_char_def upper_letters_def lower_letters_def)
  have ev: "lower (strip ''plastic'') = ''plastic''"
    "lower (strip [CHR 0xA0, CHR ''P'', CHR 0xA0]) = ''p''"
    "lower (strip ([CHR 0x09] @ ''PaPer'' @ [CHR 0x0A])) = ''paper''"
    by (simp_all add: strip_def is_space_def lower_def lower_char_def upper_letters_def
        lower_letters_def)
  have one: "classify_material bench_world dim_frame start =
       (Inr ''bottle'', \<lparr>reads = 0, shots = 0, prompts = 1, posts = 0, trace = [Prompt]\<rparr>)"
    using conjunct1 [OF operator_fallback [OF fr i0]]
    by (simp add: start_def emit_def lower_def strip_def)
  have two: "fst (classify_material (bench_world\<lparr>stdin := (\<lambda>k. Some [CHR 0x20, CHR 0x09, CHR 0xA0])\<rparr>)
            dim_frame start) = Inr ''bottle''"
    by (rule mp [OF conjunct1 [OF conjunct2
          [OF operator_fallback [OF fr i [of "[CHR 0x20, CHR 0x09, CHR 0xA0]"]]]] sp(1)])
  have three: "fst (classify_material (bench_world\<lparr>stdin := (\<lambda>k. Some ''plastic'')\<rparr>)
            dim_frame start) = Inr ''bottle''"
    using conjunct1 [OF operator_fallback [OF fr i [of "''plastic''"]]]
    by (simp only: ev(1)) simp
  have four: "fst (classify_material (bench_world\<lparr>stdin := (\<lambda>k. Some [CHR 0xA0, CHR ''P'', CHR 0xA0])\<rparr>)
            dim_frame start) = Inr ''paper''"
  proof (rule mp [OF conjunct2 [OF conjunct2
          [OF operator_fallback [OF fr i [of "[CHR 0xA0, CHR ''P'', CHR 0xA0]"],
              of "[CHR 0xA0]" "[CHR 0xA0]" "''P''"]]]])
    show "(\<forall>c\<in>set [CHR 0xA0]. is_space c) \<and> (\<forall>c\<in>set [CHR 0xA0]. is_space c)
        \<and> [CHR 0xA0, CHR ''P'', CHR 0xA0] = [CHR 0xA0] @ ''P'' @ [CHR 0xA0]
        \<and> (lower ''P'' = ''paper'' \<or> lower ''P'' = ''p'')"
      using sp(2) lw(1) by simp
  qed
  have five: "fst (classify_material (bench_world\<lparr>stdin := (\<lambda>k. Some ([CHR 0x09] @ ''PaPer'' @ [CHR 0x0A]))\<rparr>)
            dim_frame start) = Inr ''paper''"
  proof (rule mp [OF conjunct2 [OF conjunct2
          [OF operator_fallback [OF fr i [of "[CHR 0x09] @ ''PaPer'' @ [CHR 0x0A]"],
              of "[CHR 0x09]" "[CHR 0x0A]" "''PaPer''"]]]])
    show "(\<forall>c\<in>set [CHR 0x09]. is_space c) \<and> (\<forall>c\<in>set [CHR 0x0A]. is_space c)
        \<and> [CHR 0x09] @ ''PaPer'' @ [CHR 0x0A] = [CHR 0x09] @ ''PaPer'' @ [CHR 0x0A]
        \<and> (lower ''PaPer'' = ''paper'' \<or> lower ''PaPer'' = ''p'')"
      using sp(3,4) lw(2) by simp
  qed
  from fr i0 ev one two three four five show ?thesis by (simp only: simp_thms)
qed

subsection \<open>Requests to the server\<close>

text \<open>
  Claim C6, as stated, asks for up to three attempts when the server is unavailable.
  On the bench the first request fails with a \<open>RequestException\<close> and a second one
  would be answered; \<open>request_reward\<close> posts once and returns \<open>None\<close>.
\<close>

theorem request_reward_gives_up_counterexample:
  "http bench_world 0 = RequestException
   \<and> http bench_world 1 = Response 200 (Some reward_json)
   \<and> request_reward bench_world ''bottle'' start =
       (Inr JNull, \<lparr>reads = 0, shots = 0, prompts = 0, posts = 1, trace = [Post ''bottle'']\<rparr>)"
  by (simp add: bench_world_def request_reward_def start_def emit_def)


text \<open>
  Claim C6, amended. \<open>request_reward\<close> makes exactly one request, whatever its
  outcome; a failure of any kind (no connection or timeout, or a status from 400 to 599,
  which covers 401, 400 and the server errors) is returned at once as \<open>None\<close>,
  without retry or delay.
\<close>

theorem request_reward_single_attempt:
  "posts (snd (request_reward w m a)) = posts a + 1
   \<and> trace (snd (request_reward w m a)) = trace a @ [Post m]
   \<and> (http w (posts a) = RequestException
        \<or> (\<exists>code content. http w (posts a) = Response code content \<and> 400 \<le> code \<and> code < 600)
       \<longrightarrow> fst (request_reward w m a) = Inr JNull)"
  by (auto simp: request_reward_def emit_def Let_def split: http_outcome.splits option.splits)


theorem request_reward_single_attempt_witness:
  "http bench_world (posts start) = RequestException
   \<and> posts (snd (request_reward bench_world ''paper'' start)) = 1
   \<and> trace (snd (request_reward bench_world ''paper'' start)) = [Post ''paper'']
   \<and> fst (request_reward bench_world ''paper'' start) = Inr JNull"
  using request_reward_single_attempt [of bench_world "''paper''" start]
  by (simp add: bench_world_def start_def)

subsection \<open>Failures of the serial port\<close>

text \<open>
  Claim C7, as stated, has the agent retry opening the port for ever. With a port that
  cannot be opened \<open>main\<close> exits with status 1 after one attempt, without sleeping.
\<close>

theorem main_gives_up_on_closed_port_counterexample:
  "\<not> open_serial dead_port_world
   \<and> main dead_port_world 5 =
       (Exited 1, \<lparr>reads = 0, shots = 0, prompts = 0, posts = 0,
                   trace = [Open_port, Exit_process 1]\<rparr>)"
  by (simp add: dead_port_world_def main_def start_def emit_def)


lemma loop_all_reads_fail:
  "\<forall>k. readline w k = SerialException \<Longrightarrow>
   loop w fuel a = (Running, a\<lparr>reads := reads a + fuel,
                                trace := trace a @ concat (replicate fuel [Read_line, Sleep 1])\<rparr>)"
proof (induction fuel arbitrary: a)
  case 0
  then show ?case by simp
next
  case (Suc fuel)
  have "cycle w a = (Inr (), emit [Read_line, Sleep 1] (a\<lparr>reads := reads a + 1\<rparr>))"
    using Suc.prems by (simp add: cycle_def emit_def Let_def)
  then show ?case using Suc.IH [OF Suc.prems] by (simp add: emit_def)
qed


text \<open>
  Claim C7, amended. If the port cannot be opened, \<open>main\<close> exits with status 1
  after that one attempt. A failed read of the open port is followed by a sleep of one
  second and the next pass of the loop, on the same port, which is never reopened; so
  with a port that fails every read the agent is still running after any number of
  passes.
\<close>

theorem transport_failure_handling:
  "(\<not> open_serial w \<longrightarrow> main w fuel = (Exited 1, emit [Open_port, Exit_process 1] start))
   \<and> (readline w (reads a) = SerialException \<longrightarrow>
        cycle w a = (Inr (), emit [Read_line, Sleep 1] (a\<lparr>reads := reads a + 1\<rparr>)))
   \<and> (open_serial w \<and> (\<forall>k. readline w k = SerialException) \<longrightarrow>
        main w fuel = (Running, start\<lparr>reads := fuel,
                         trace := Open_port # concat (replicate fuel [Read_line, Sleep 1])\<rparr>))"
proof (intro conjI impI)
  assume "\<not> open_serial w"
  then show "main w fuel = (Exited 1, emit [Open_port, Exit_process 1] start)"
    by (simp add: main_def emit_def)
next
  assume "readline w (reads a) = SerialException"
  then show "cycle w a = (Inr (), emit [Read_line, Sleep 1] (a\<lparr>reads := reads a + 1\<rparr>))"
    by (simp add: cycle_def emit_def Let_def)
next
  assume h: "open_serial w \<and> (\<forall>k. readline w k = SerialException)"
  then show "main w fuel = (Running, start\<lparr>reads := fuel,
                         trace := Open_port # concat (replicate fuel [Read_line, Sleep 1])\<rparr>)"
    using loop_all_reads_fail [of w fuel "emit [Open_port] start"]
    by (simp add: main_def emit_def start_def)
qed


theorem transport_failure_handling_witness:
  "\<not> open_serial dead_port_world
   \<and> main dead_port_world 2 = (Exited 1, emit [Open_port, Exit_process 1] start)
   \<and> readline unplugged_world (reads start) = SerialException
   \<and> cycle unplugged_world start = (Inr (), emit [Read_line, Sleep 1] (start\<lparr>reads := 1\<rparr>))
   \<and> open_serial unplugged_world \<and> (\<forall>k. readline unplugged_world k = SerialException)
   \<and> main unplugged_world 2 =
       (Running, start\<lparr>reads := 2,
                   trace := [Open_port, Read_line, Sleep 1, Read_line, Sleep 1]\<rparr>)"
  using transport_failure_handling [of dead_port_world 2 start]
        transport_failure_handling [of unplugged_world 2 start]
  by (simp add: dead_port_world_def unplugged_world_def bench_world_def start_def numeral_2_eq_2)

subsection \<open>What is sent to the server\<close>

lemma classify_material_result:
  "classify_material w fr a = (Inr m, a') \<Longrightarrow>
     (m = ''bottle'' \<or> m = ''paper'') \<and> posts a' = posts a
     \<and> (trace a' = trace a \<or> trace a' = trace a @ [Prompt])"
  by (auto simp: classify_material_def emit_def Let_def split: if_splits option.splits)

lemma classify_material_error:
  "classify_material w fr a = (Inl e, a') \<Longrightarrow>
     posts a' = posts a \<and> trace a' = trace a @ [Prompt]"
  by (auto simp: classify_material_def emit_def Let_def split: if_splits option.splits)

lemma request_reward_trace:
  "request_reward w m a = (r, a') \<Longrightarrow> trace a' = trace a @ [Post m]"
  by (auto simp: request_reward_def emit_def Let_def split: http_outcome.splits if_splits option.splits)

lemma print_reward_trace:
  "print_reward j a = (r, a') \<Longrightarrow> (\<forall>m. Post m \<in> set (trace a') \<longrightarrow> Post m \<in> set (trace a))"
  by (auto simp: print_reward_def emit_def split: sum.splits)

lemma cycle_mints_determinate:
  assumes "mints_determinate (trace a)" and "cycle w a = (r, a')"
  shows "mints_determinate (trace a')"
proof (cases "readline w (reads a)")
  case SerialException
  with assms show ?thesis by (auto simp: cycle_def emit_def mints_determinate_def)
next
  case (Line raw)
  let ?a1 = "emit [Read_line] (a\<lparr>reads := reads a + 1\<rparr>)"
  have a1: "mints_determinate (trace ?a1)"
    using assms(1) by (auto simp: emit_def mints_determinate_def)
  show ?thesis
  proof (cases "strip raw = [] \<or> strip raw \<noteq> sensor_trigger_value w")
    case True
    with Line assms(2) have "a' = ?a1" by (auto simp: cycle_def Let_def split: if_splits)
    with a1 show ?thesis by simp
  next
    case False
    obtain fo a2 where cap: "capture_frame w ?a1 = (fo, a2)" by (cases "capture_frame w ?a1")
    then have a2: "mints_determinate (trace a2)"
      using a1 by (auto simp: capture_frame_def emit_def mints_determinate_def)
    show ?thesis
    proof (cases fo)
      case None
      with Line False cap assms(2) have "a' = a2" by (auto simp: cycle_def Let_def)
      with a2 show ?thesis by simp
    next
      case (Some fr)
      obtain c a3 where cl: "classify_material w fr a2 = (c, a3)" by (cases "classify_material w fr a2")
      show ?thesis
      proof (cases c)
        case (Inl e)
        with cl have "trace a3 = trace a2 @ [Prompt]" using classify_material_error by blast
        with a2 have "mints_determinate (trace a3)" by (auto simp: mints_determinate_def)
        moreover from Line False cap Some cl Inl assms(2) have "a' = a3"
          by (auto simp: cycle_def Let_def)
        ultimately show ?thesis by simp
      next
        case (Inr m)
        with cl have m: "m = ''bottle'' \<or> m = ''paper''"
          and t3: "trace a3 = trace a2 \<or> trace a3 = trace a2 @ [Prompt]"
          using classify_material_result by blast+
        obtain rr a4 where rq: "request_reward w m a3 = (rr, a4)" by (cases "request_reward w m a3")
        then have "trace a4 = trace a3 @ [Post m]" by (rule request_reward_trace)
        with m t3 a2 have a4: "mints_determinate (trace a4)"
          by (auto simp: mints_determinate_def)
        show ?thesis
        proof (cases rr)
          case (Inl e)
          with Line False cap Some cl Inr rq assms(2) have "a' = a4"
            by (auto simp: cycle_def Let_def)
          with a4 show ?thesis by simp
        next
          case rw: (Inr reward)
          show ?thesis
          proof (cases "truthy reward")
            case False
            with Line \<open>\<not> (strip raw = [] \<or> strip raw \<noteq> sensor_trigger_value w)\<close> cap Some cl Inr rq rw assms(2)
            have "a' = emit [Sleep 0.5] a4" by (auto simp: cycle_def Let_def)
            with a4 show ?thesis by (auto simp: emit_def mints_determinate_def)
          next
            case True
            obtain pr a5 where p: "print_reward reward a4 = (pr, a5)" by (cases "print_reward reward a4")
            then have a5: "mints_determinate (trace a5)"
              using a4 print_reward_trace unfolding mints_determinate_def by blast
            from Line \<open>\<not> (strip raw = [] \<or> strip raw \<noteq> sensor_trigger_value w)\<close> cap Some cl Inr rq rw True p assms(2)
            have "a' = a5 \<or> a' = emit [Sleep 0.5] a5"
              by (auto simp: cycle_def Let_def split: sum.splits)
            with a5 show ?thesis by (auto simp: emit_def mints_determinate_def)
          qed
        qed
      qed
    qed
  qed
qed

lemma loop_mints_determinate:
  "mints_determinate (trace a) \<Longrightarrow> mints_determinate (trace (snd (loop w fuel a)))"
proof (induction fuel arbitrary: a)
  case 0
  then show ?case by simp
next
  case (Suc fuel)
  obtain r a' where c: "cycle w a = (r, a')" by (cases "cycle w a")
  with Suc.prems have d: "mints_determinate (trace a')" by (rule cycle_mints_determinate)
  show ?case
  proof (cases r)
    case (Inl e)
    with c d show ?thesis by (auto simp: emit_def mints_determinate_def)
  next
    case (Inr u)
    with c Suc.IH [OF d] show ?thesis by simp
  qed
qed

lemma main_mints_determinate: "mints_determinate (trace (snd (main w fuel)))"
proof (cases "open_serial w")
  case True
  have "mints_determinate (trace (emit [Open_port] start))"
    by (simp add: mints_determinate_def emit_def start_def)
  then show ?thesis using True loop_mints_determinate by (simp add: main_def)
next
  case False
  then show ?thesis by (simp add: main_def mints_determinate_def emit_def start_def)
qed


text \<open>
  Claim C8. Every request that \<open>main\<close> sends carries the material \<open>bottle\<close> or
  \<open>paper\<close>. When the sensor has fired, a frame was captured, neither test of the
  heuristic passes and the operator gives no input (\<open>input()\<close> raises
  \<open>EOFError\<close>), the pass ends the agent with that exception: no request is sent
  in it, and none afterwards.
\<close>

theorem never_mints_undetermined:
  "(\<forall>m. Post m \<in> set (trace (snd (main w fuel))) \<longrightarrow> m = ''bottle'' \<or> m = ''paper'')
   \<and> (readline w (reads a) = Line raw \<and> strip raw \<noteq> [] \<and> strip raw = sensor_trigger_value w
        \<and> camera w (shots a) = Some fr
        \<and> \<not> blue_ratio fr > 0.1 \<and> \<not> mean_intensity fr > 150
        \<and> stdin w (prompts a) = None
       \<longrightarrow> (\<exists>a'. loop w (Suc fuel) a = (Crashed EOFError, a')
                 \<and> posts a' = posts a
                 \<and> trace a' = trace a @ [Read_line, Capture, Prompt, Close_port]))"
proof (intro conjI impI)
  show "\<forall>m. Post m \<in> set (trace (snd (main w fuel))) \<longrightarrow> m = ''bottle'' \<or> m = ''paper''"
    using main_mints_determinate [of w fuel] by (simp add: mints_determinate_def)
next
  assume h: "readline w (reads a) = Line raw \<and> strip raw \<noteq> [] \<and> strip raw = sensor_trigger_value w
        \<and> camera w (shots a) = Some fr
        \<and> \<not> blue_ratio fr > 0.1 \<and> \<not> mean_intensity fr > 150
        \<and> stdin w (prompts a) = None"
  then have "cycle w a = (Inl EOFError,
      a\<lparr>reads := reads a + 1, shots := shots a + 1, prompts := prompts a + 1,
        trace := trace a @ [Read_line, Capture, Prompt]\<rparr>)"
    by (auto simp: cycle_def capture_frame_def classify_material_def emit_def Let_def)
  then show "\<exists>a'. loop w (Suc fuel) a = (Crashed EOFError, a')
                 \<and> posts a' = posts a
                 \<and> trace a' = trace a @ [Read_line, Capture, Prompt, Close_port]"
    by (simp add: emit_def)
qed

theorem never_mints_undetermined_witness:
  "Post ''bottle'' \<in> set (trace (snd (main bench_world 1)))
   \<and> readline silent_world (reads start) = Line ''1'' \<and> strip ''1'' \<noteq> []
   \<and> strip ''1'' = sensor_trigger_value silent_world
   \<and> camera silent_world (shots start) = Some dim_frame
   \<and> \<not> blue_ratio dim_frame > 0.1 \<and> \<not> mean_intensity dim_frame > 150
   \<and> stdin silent_world (prompts start) = None
   \<and> (\<exists>a'. loop silent_world (Suc 3) start = (Crashed EOFError, a')
            \<and> posts a' = posts start
            \<and> trace a' = trace start @ [Read_line, Capture, Prompt, Close_port])"
proof -
  have p: "Post ''bottle'' \<in> set (trace (snd (main bench_world 1)))"
    by (simp add: main_def bench_world_def start_def emit_def cycle_def capture_frame_def
        classify_material_def request_reward_def dim_frame_def strip_def is_space_def lower_def Let_def)
  have h: "readline silent_world (reads start) = Line ''1'' \<and> strip ''1'' \<noteq> []
      \<and> strip ''1'' = sensor_trigger_value silent_world
      \<and> camera silent_world (shots start) = Some dim_frame
      \<and> \<not> blue_ratio dim_frame > 0.1 \<and> \<not> mean_intensity dim_frame > 150
      \<and> stdin silent_world (prompts start) = None"
    by (simp add: silent_world_def bench_world_def start_def strip_def is_space_def dim_frame_def)
  from never_mints_undetermined [of bench_world 1 start "''1''" dim_frame]
    never_mints_undetermined [of silent_world 3 start "''1''" dim_frame] p h
  show ?thesis by blast
qed

end
